theory Spec2Isabelle
  imports Main
begin

section \<open>JavaScript values\<close>

text \<open>
  The values a configuration tree holds.  Numbers are restricted to the integers that
  JavaScript holds exactly and prints in decimal digits (the safe integers).  An array
  carries its elements (a hole reads as \<open>Undefined\<close>) and the named properties that
  JavaScript allows on an array object.  An object is an association list in insertion
  order with distinct keys: a plain object, its prototype \<open>Object.prototype\<close>; the
  place that JavaScript gives to integer-like keys in its enumeration is not modelled.  A
  \<open>char\<close> stands for one code unit below 256.  Object identity is not part of this
  type: the sections on aliasing use an explicit heap.

  \<open>Native n\<close> is a value that the class did not build and whose inside it cannot see: a
  function or an object of the host, such as \<open>Object\<close> or
  \<open>Object.prototype.toString\<close>, or a function that the caller has registered.  It is
  known by a name, and what it does is the host's.
\<close>

datatype jsval =
    Undefined
  | Null
  | Bool bool
  | Num int
  | Str string
  | Arr "jsval list" "(string \<times> jsval) list"
  | Obj "(string \<times> jsval) list"
  | Native string

fun is_string :: "jsval \<Rightarrow> bool" where
  "is_string (Str _) = True"
| "is_string _ = False"

text \<open>lodash \<open>isObject\<close>: arrays, objects and functions.\<close>

fun is_object :: "jsval \<Rightarrow> bool" where
  "is_object (Arr _ _) = True"
| "is_object (Obj _) = True"
| "is_object (Native _) = True"
| "is_object _ = False"

text \<open>The arrays and plain objects, which the class and lodash build and copy.\<close>

fun is_container :: "jsval \<Rightarrow> bool" where
  "is_container (Arr _ _) = True"
| "is_container (Obj _) = True"
| "is_container _ = False"

text \<open>JavaScript truthiness, as the tests \<open>!key\<close> and \<open>dictionary.self\<close> read it.\<close>

fun truthy :: "jsval \<Rightarrow> bool" where
  "truthy Undefined = False"
| "truthy Null = False"
| "truthy (Bool b) = b"
| "truthy (Num n) = (n \<noteq> 0)"
| "truthy (Str s) = (s \<noteq> [])"
| "truthy (Arr _ _) = True"
| "truthy (Obj _) = True"
| "truthy (Native _) = True"

section \<open>Errors and the host\<close>

text \<open>
  What a call can throw: the error of the reserved key, a \<open>TypeError\<close> of the
  language, an exception of a function of the host (by its message), and
  \<open>Not_described\<close>, which marks a step that this development does not follow (the
  conversion to a string of an object that overrides \<open>toString\<close>, of an array that
  overrides \<open>join\<close>, of a number that is no safe integer; a call that a host description
  leaves out).
\<close>

datatype error = Reserved_key | Type_error | Thrown string | Not_described

text \<open>
  What the prototype chain of a value depends on: the kind of the value, and for a host
  value its name.
\<close>

datatype receiver =
    Plain_object
  | Array_object
  | String_value
  | Number_value
  | Boolean_value
  | Host_value string

text \<open>
  The host is everything outside the sources of the class: the prototype objects, the
  built-in functions, the functions that the caller registers.

  \<^item> \<open>inherited r k\<close> is what \<open>v[k]\<close> finds on the prototype chain of a value \<open>v\<close> of
    the kind \<open>r\<close> when \<open>k\<close> is no own property of \<open>v\<close>, and \<open>undefined\<close> when it
    finds nothing; for a host value it is every property read.
  \<^item> \<open>call_function n this args\<close> is the call of the host value \<open>n\<close> as a method of
    \<open>this\<close>: its result or the error it throws, a \<open>TypeError\<close> when \<open>n\<close> is no
    function.  A call returns or throws; it changes nothing of the store.
  \<^item> \<open>function_text n\<close> is \<open>String\<close> of the host value \<open>n\<close>.
\<close>

record host =
  inherited :: "receiver \<Rightarrow> string \<Rightarrow> jsval"
  call_function :: "string \<Rightarrow> jsval \<Rightarrow> jsval list \<Rightarrow> error + jsval"
  function_text :: "string \<Rightarrow> string"

section \<open>Strings\<close>

definition is_line_terminator :: "char \<Rightarrow> bool" where
  "is_line_terminator c \<longleftrightarrow> c = CHR 0x0A \<or> c = CHR 0x0D"

definition is_space :: "char \<Rightarrow> bool" where
  "is_space c \<longleftrightarrow> c = CHR '' '' \<or> c = CHR 0x09 \<or> c = CHR 0x0A \<or> c = CHR 0x0B
     \<or> c = CHR 0x0C \<or> c = CHR 0x0D \<or> c = CHR 0xA0"

text \<open>\<open>String.prototype.trim\<close>.\<close>

definition trim :: "string \<Rightarrow> string" where
  "trim s = rev (dropWhile is_space (rev (dropWhile is_space s)))"

text \<open>\<open>s.split(c)\<close> for a one-character separator: never the empty list.\<close>

fun split_on :: "char \<Rightarrow> string \<Rightarrow> string list" where
  "split_on c [] = [[]]"
| "split_on c (x # xs) =
     (if x = c then [] # split_on c xs
      else (case split_on c xs of
              [] \<Rightarrow> [[x]]
            | w # ws \<Rightarrow> (x # w) # ws))"

text \<open>\<open>s.replace(/:/g, '.')\<close>.\<close>

definition colons_to_dots :: "string \<Rightarrow> string" where
  "colons_to_dots s = map (\<lambda>c. if c = CHR '':'' then CHR ''.'' else c) s"

text \<open>Decimal text of an integer, as \<open>String(n)\<close> gives it.\<close>

fun digit_char :: "nat \<Rightarrow> char" where
  "digit_char n = char_of (48 + n mod 10)"

fun nat_text :: "nat \<Rightarrow> string" where
  "nat_text n = (if n < 10 then [digit_char n] else nat_text (n div 10) @ [digit_char n])"

declare nat_text.simps [simp del]

definition int_text :: "int \<Rightarrow> string" where
  "int_text i = (if i < 0 then CHR ''-'' # nat_text (nat (- i)) else nat_text (nat i))"

fun join_with :: "string \<Rightarrow> string list \<Rightarrow> string" where
  "join_with sep [] = []"
| "join_with sep [x] = x"
| "join_with sep (x # y # ys) = x @ sep @ join_with sep (y # ys)"

text \<open>
  \<open>String(v)\<close>, which \<open>String.prototype.replace\<close> applies to what its callback
  returns.  An array joins the texts of its elements with commas, \<open>null\<close> and
  \<open>undefined\<close> elements giving the empty text; a plain object gives the text of the
  built-in \<open>Object.prototype.toString\<close>.  This is the conversion that the prototypes
  provide; for an object with an own property \<open>toString\<close>, and for an array with an
  own property \<open>toString\<close> or \<open>join\<close>, the conversion is not described.
\<close>

definition has_own :: "(string \<times> jsval) list \<Rightarrow> string \<Rightarrow> bool" where
  "has_own ps k \<longleftrightarrow> map_of ps k \<noteq> None"

fun to_text :: "host \<Rightarrow> jsval \<Rightarrow> error + string"
  and texts :: "host \<Rightarrow> jsval list \<Rightarrow> error + string list" where
  "to_text h Undefined = Inr ''undefined''"
| "to_text h Null = Inr ''null''"
| "to_text h (Bool b) = Inr (if b then ''true'' else ''false'')"
| "to_text h (Num n) =
     (if \<bar>n\<bar> \<le> 9007199254740991 then Inr (int_text n) else Inl Not_described)"
| "to_text h (Str s) = Inr s"
| "to_text h (Native n) = Inr (function_text h n)"
| "to_text h (Obj ps) =
     (if has_own ps ''toString'' then Inl Not_described else Inr ''[object Object]'')"
| "to_text h (Arr xs ps) =
     (if has_own ps ''toString'' \<or> has_own ps ''join'' then Inl Not_described
      else (case texts h xs of Inl e \<Rightarrow> Inl e | Inr ts \<Rightarrow> Inr (join_with '','' ts)))"
| "texts h [] = Inr []"
| "texts h (x # xs) =
     (case (if x = Undefined \<or> x = Null then Inr [] else to_text h x) of
        Inl e \<Rightarrow> Inl e
      | Inr t \<Rightarrow> (case texts h xs of Inl e \<Rightarrow> Inl e | Inr ts \<Rightarrow> Inr (t # ts)))"

section \<open>The substitution regex\<close>

text \<open>
  \<open>#substitutionRegex = /[$@]\{(?!.*?[$@])(.*?)}/g\<close>.  A match starts at a sigil
  followed by an opening brace; the negative lookahead refuses it when a sigil occurs
  later on the same line; the lazy group ends at the first closing brace on that line.
\<close>

definition is_sigil :: "char \<Rightarrow> bool" where
  "is_sigil c \<longleftrightarrow> c = CHR ''$'' \<or> c = CHR ''@''"

definition rest_of_line :: "string \<Rightarrow> string" where
  "rest_of_line s = takeWhile (\<lambda>c. \<not> is_line_terminator c) s"

text \<open>
  A match at the head of the string: the captured group and what follows the match.
  The parameter is the sigil class: \<open>[$@]\<close> in the richer variant, \<open>\$\<close> alone in
  the simpler one (\<open>/\${(?!.*?\$)(.*?)}/g\<close>).
\<close>

definition match_here :: "(char \<Rightarrow> bool) \<Rightarrow> string \<Rightarrow> (string \<times> string) option" where
  "match_here sig s =
     (case s of
        c # b # r \<Rightarrow>
          if sig c \<and> b = CHR ''{''
             \<and> \<not> list_ex sig (rest_of_line r)
             \<and> list_ex (\<lambda>x. x = CHR ''}'') (rest_of_line r)
          then Some (takeWhile (\<lambda>x. x \<noteq> CHR ''}'') r, tl (dropWhile (\<lambda>x. x \<noteq> CHR ''}'') r))
          else None
      | _ \<Rightarrow> None)"

text \<open>
  The scan of a global \<open>replace\<close>: literal characters and matches (sigil and group),
  left to right, the search resuming after each match.
\<close>

datatype segment = Lit char | Match char string

function segments :: "(char \<Rightarrow> bool) \<Rightarrow> string \<Rightarrow> segment list" where
  "segments sig [] = []"
| "segments sig (c # r) =
     (case match_here sig (c # r) of
        Some (val, rest) \<Rightarrow> Match c val # segments sig rest
      | None \<Rightarrow> Lit c # segments sig r)"
  by pat_completeness auto
termination
proof (relation "measure (\<lambda>(sig, s). length s)")
  fix sig :: "char \<Rightarrow> bool" and c r x2 val rest
  assume "match_here sig (c # r) = Some x2" and "(val, rest) = x2"
  then have "rest = tl (dropWhile (\<lambda>x. x \<noteq> CHR ''}'') (tl r))"
    by (auto simp: match_here_def split: list.splits if_splits)
  moreover have "length (tl (dropWhile (\<lambda>x. x \<noteq> CHR ''}'') (tl r))) \<le> length r"
    by (metis diff_le_self le_trans length_dropWhile_le length_tl)
  ultimately show "((sig, rest), (sig, c # r)) \<in> measure (\<lambda>(sig, s). length s)" by simp
qed simp_all

fun is_match :: "segment \<Rightarrow> bool" where
  "is_match (Match _ _) = True"
| "is_match (Lit _) = False"

text \<open>\<open>template.match(regex)\<close> is not \<open>null\<close>.\<close>

definition has_match :: "(char \<Rightarrow> bool) \<Rightarrow> string \<Rightarrow> bool" where
  "has_match sig s = list_ex is_match (segments sig s)"

definition is_dollar :: "char \<Rightarrow> bool" where
  "is_dollar c \<longleftrightarrow> c = CHR ''$''"

text \<open>
  \<open>val.match(/^(.*?):(.*)$/)\<close> of the richer variant: the lazy group stops at the
  first colon.  The group of a match holds no line terminator, so \<open>.\<close> and \<open>$\<close>
  do not restrict it further.
\<close>

definition split_colon :: "string \<Rightarrow> (string \<times> string) option" where
  "split_colon val =
     (if CHR '':'' \<in> set val
      then Some (takeWhile (\<lambda>c. c \<noteq> CHR '':'') val, tl (dropWhile (\<lambda>c. c \<noteq> CHR '':'') val))
      else None)"

text \<open>\<open>val.match(/^(.*)?:(.*)$/)\<close> of the simpler variant: the greedy group stops at the last colon.\<close>

definition split_last_colon :: "string \<Rightarrow> (string \<times> string) option" where
  "split_last_colon val =
     (if CHR '':'' \<in> set val
      then Some (rev (tl (dropWhile (\<lambda>c. c \<noteq> CHR '':'') (rev val))),
                 rev (takeWhile (\<lambda>c. c \<noteq> CHR '':'') (rev val)))
      else None)"

section \<open>Property access, lodash get and set\<close>

definition is_digit :: "char \<Rightarrow> bool" where
  "is_digit c \<longleftrightarrow> (48::nat) \<le> of_char c \<and> of_char c \<le> (57::nat)"

definition digits_value :: "string \<Rightarrow> nat" where
  "digits_value s = foldl (\<lambda>n c. 10 * n + (of_char c - (48::nat))) (0::nat) s"

text \<open>A canonical decimal numeral, \<open>/^(?:0|[1-9]\d*)$/\<close>.\<close>

definition is_uint :: "string \<Rightarrow> bool" where
  "is_uint s \<longleftrightarrow> s \<noteq> [] \<and> list_all is_digit s \<and> (s = ''0'' \<or> hd s \<noteq> CHR ''0'')"

text \<open>lodash \<open>isIndex\<close>: a canonical numeral below \<open>Number.MAX_SAFE_INTEGER\<close>.\<close>

definition is_index :: "string \<Rightarrow> bool" where
  "is_index s \<longleftrightarrow> is_uint s \<and> digits_value s < 9007199254740991"

text \<open>An array index of JavaScript: a canonical numeral below \<open>2^32 - 1\<close>.\<close>

definition array_index :: "string \<Rightarrow> nat option" where
  "array_index s = (if is_uint s \<and> digits_value s < 4294967295 then Some (digits_value s) else None)"

text \<open>
  \<open>object[key]\<close>: the own property, or else what the prototype chain holds.  The callers
  test for \<open>null\<close> and \<open>undefined\<close> before they read, except \<open>resolve\<close>, whose
  reading of \<open>dictionary.self\<close> has its own case there.
\<close>

fun get_prop :: "host \<Rightarrow> jsval \<Rightarrow> string \<Rightarrow> jsval" where
  "get_prop h (Obj ps) k = (case map_of ps k of Some v \<Rightarrow> v | None \<Rightarrow> inherited h Plain_object k)"
| "get_prop h (Arr xs ps) k =
     (if k = ''length'' then Num (int (length xs))
      else (case array_index k of
              Some i \<Rightarrow> if i < length xs then xs ! i else inherited h Array_object k
            | None \<Rightarrow> (case map_of ps k of Some v \<Rightarrow> v | None \<Rightarrow> inherited h Array_object k)))"
| "get_prop h (Str s) k =
     (if k = ''length'' then Num (int (length s))
      else (case array_index k of
              Some i \<Rightarrow> if i < length s then Str [s ! i] else inherited h String_value k
            | None \<Rightarrow> inherited h String_value k))"
| "get_prop h (Num n) k = inherited h Number_value k"
| "get_prop h (Bool b) k = inherited h Boolean_value k"
| "get_prop h (Native n) k = inherited h (Host_value n) k"
| "get_prop h Undefined k = Undefined"
| "get_prop h Null k = Undefined"

text \<open>
  \<open>key in Object(object)\<close>: an own property, or one on the prototype chain.  The
  callers rule out \<open>null\<close> and \<open>undefined\<close>.
\<close>

fun has_key :: "host \<Rightarrow> jsval \<Rightarrow> string \<Rightarrow> bool" where
  "has_key h (Obj ps) k = (has_own ps k \<or> inherited h Plain_object k \<noteq> Undefined)"
| "has_key h (Arr xs ps) k =
     (k = ''length''
      \<or> (case array_index k of Some i \<Rightarrow> i < length xs | None \<Rightarrow> has_own ps k)
      \<or> inherited h Array_object k \<noteq> Undefined)"
| "has_key h (Str s) k =
     (k = ''length''
      \<or> (case array_index k of Some i \<Rightarrow> i < length s | None \<Rightarrow> False)
      \<or> inherited h String_value k \<noteq> Undefined)"
| "has_key h (Num n) k = (inherited h Number_value k \<noteq> Undefined)"
| "has_key h (Bool b) k = (inherited h Boolean_value k \<noteq> Undefined)"
| "has_key h (Native n) k = (inherited h (Host_value n) k \<noteq> Undefined)"
| "has_key h Undefined k = False"
| "has_key h Null k = False"

text \<open>An assignment to a key of an association list keeps the key's place, a new key goes last.\<close>

fun upd :: "(string \<times> jsval) list \<Rightarrow> string \<Rightarrow> jsval \<Rightarrow> (string \<times> jsval) list" where
  "upd [] k v = [(k, v)]"
| "upd ((k', v') # ps) k v = (if k' = k then (k, v) # ps else (k', v') # upd ps k v)"

text \<open>
  \<open>object[key] = value\<close> on an array or a plain object.  An index beyond the end of an
  array extends it over holes.  Three assignments are not followed and leave the value as
  it is: to \<open>length\<close> of an array, to a property of a primitive, and to a property of a
  host value, which would change the host.
\<close>

fun assign :: "jsval \<Rightarrow> string \<Rightarrow> jsval \<Rightarrow> jsval" where
  "assign (Obj ps) k v = Obj (upd ps k v)"
| "assign (Arr xs ps) k v =
     (if k = ''length'' then Arr xs ps
      else (case array_index k of
              Some i \<Rightarrow>
                if i < length xs then Arr (xs[i := v]) ps
                else Arr (xs @ replicate (i - length xs) Undefined @ [v]) ps
            | None \<Rightarrow> Arr xs (upd ps k v)))"
| "assign x k v = x"

text \<open>
  Modelled from the spec: lodash is not in the sources.  A key path is a dotted path
  (``path lookup using the same dotted-path semantics as Path Codec''); the bracket
  notation of lodash paths is outside the model.
\<close>

definition to_path :: "string \<Rightarrow> string list" where
  "to_path key = split_on CHR ''.'' key"

text \<open>A key path in dot notation only, for which \<open>to_path\<close> is what lodash does.\<close>

definition dotted :: "string \<Rightarrow> bool" where
  "dotted key \<longleftrightarrow> CHR ''['' \<notin> set key \<and> CHR '']'' \<notin> set key"

text \<open>
  Modelled from the spec: lodash \<open>castPath\<close>.  A key that is a property of the object as
  a whole, dots included, is that one property; any other key is split at its dots.
\<close>

definition cast_path :: "host \<Rightarrow> jsval \<Rightarrow> string \<Rightarrow> string list" where
  "cast_path h object key = (if has_key h object key then [key] else to_path key)"

text \<open>
  Modelled from the spec: lodash \<open>baseGet\<close>, the walk along the keys of a path; it stops
  at \<open>null\<close> or \<open>undefined\<close>.
\<close>

fun base_get :: "host \<Rightarrow> jsval \<Rightarrow> string list \<Rightarrow> jsval" where
  "base_get h v [] = v"
| "base_get h v (k # ks) =
     (if v = Undefined \<or> v = Null then Undefined else base_get h (get_prop h v k) ks)"

text \<open>
  Modelled from the spec: what lodash \<open>get(object, path)\<close> finds, \<open>undefined\<close> when it
  finds nothing.
\<close>

definition lookup :: "host \<Rightarrow> jsval \<Rightarrow> string \<Rightarrow> jsval" where
  "lookup h object path = base_get h object (cast_path h object path)"

text \<open>
  Modelled from the spec: lodash \<open>get(object, path, defaultValue)\<close>, the default
  standing in for an \<open>undefined\<close> result.
\<close>

definition lodash_get :: "host \<Rightarrow> jsval \<Rightarrow> string \<Rightarrow> jsval \<Rightarrow> jsval" where
  "lodash_get h object path defaultValue =
     (let result = lookup h object path
      in if result = Undefined then defaultValue else result)"

text \<open>
  Modelled from the spec: lodash \<open>baseSet\<close>, which ``creates intermediate nested objects
  as needed'': a step through a value that is no object replaces it by a fresh container,
  an array when the next key is an index, a plain object otherwise.
\<close>

fun base_set :: "host \<Rightarrow> jsval \<Rightarrow> string list \<Rightarrow> jsval \<Rightarrow> jsval" where
  "base_set h object [] v = object"
| "base_set h object [k] v = (if is_object object then assign object k v else object)"
| "base_set h object (k # k' # ks) v =
     (if is_object object
      then assign object k
             (base_set h (if is_object (get_prop h object k) then get_prop h object k
                          else if is_index k' then Arr [] [] else Obj [])
                (k' # ks) v)
      else object)"

text \<open>
  Modelled from the spec: lodash \<open>set(object, path, value)\<close>, along the dotted path.
  The class writes the resolved tree through this function only, so that no own key of
  that tree holds a dot and no whole key with dots is found there as one property.
\<close>

definition lodash_set :: "host \<Rightarrow> jsval \<Rightarrow> string \<Rightarrow> jsval \<Rightarrow> jsval" where
  "lodash_set h object path v = base_set h object (to_path path) v"

section \<open>Flatten and merge\<close>

text \<open>
  Modelled from the spec: \<open>Util.flatten\<close> (of the package \<open>@coderich/util\<close>) and
  \<open>Flat.flatten\<close> are not in the sources.  One entry per terminal value, the path
  segments joined by a dot; an empty object or array is a terminal value.  The elements
  of a non-empty array get one entry each, as the tests on \<open>app.arr\<close> require.
\<close>

fun flatten_val :: "string \<Rightarrow> jsval \<Rightarrow> (string \<times> jsval) list"
  and flatten_props :: "string \<Rightarrow> (string \<times> jsval) list \<Rightarrow> (string \<times> jsval) list"
  and flatten_elems :: "string \<Rightarrow> nat \<Rightarrow> jsval list \<Rightarrow> (string \<times> jsval) list" where
  "flatten_val key (Obj (p # ps)) = flatten_props key (p # ps)"
| "flatten_val key (Arr (x # xs) ps) = flatten_elems key 0 (x # xs) @ flatten_props key ps"
| "flatten_val key (Arr [] (p # ps)) = flatten_props key (p # ps)"
| "flatten_val key v = [(key, v)]"
| "flatten_props key [] = []"
| "flatten_props key ((k, v) # ps) = flatten_val (key @ ''.'' @ k) v @ flatten_props key ps"
| "flatten_elems key i [] = []"
| "flatten_elems key i (x # xs) =
     flatten_val (key @ ''.'' @ nat_text i) x @ flatten_elems key (Suc i) xs"

fun flatten_top :: "(string \<times> jsval) list \<Rightarrow> (string \<times> jsval) list" where
  "flatten_top [] = []"
| "flatten_top ((k, v) # ps) = flatten_val k v @ flatten_top ps"

text \<open>The result is an object: a key produced twice keeps its first place and its last value.\<close>

definition flatten :: "jsval \<Rightarrow> (string \<times> jsval) list" where
  "flatten tree =
     (case tree of
        Obj ps \<Rightarrow> fold (\<lambda>(k, v) acc. upd acc k v) (flatten_top ps) []
      | _ \<Rightarrow> [])"

fun is_array :: "jsval \<Rightarrow> bool" where
  "is_array (Arr _ _) = True"
| "is_array _ = False"

text \<open>
  Modelled from the spec: lodash \<open>merge(object, source)\<close>.  Objects merge key by key,
  arrays index by index; any other source value overwrites, except that
  \<open>undefined\<close> leaves an existing key alone.
\<close>

fun merge_key :: "host \<Rightarrow> jsval \<Rightarrow> string \<Rightarrow> jsval \<Rightarrow> jsval"
  and merge_props :: "host \<Rightarrow> jsval \<Rightarrow> (string \<times> jsval) list \<Rightarrow> jsval"
  and merge_elems :: "host \<Rightarrow> jsval \<Rightarrow> nat \<Rightarrow> jsval list \<Rightarrow> jsval" where
  "merge_key h target k (Obj qs) =
     assign target k
       (merge_props h (if is_container (get_prop h target k) then get_prop h target k else Obj []) qs)"
| "merge_key h target k (Arr xs qs) =
     assign target k
       (merge_props h
          (merge_elems h (if is_array (get_prop h target k) then get_prop h target k else Arr [] []) 0 xs)
          qs)"
| "merge_key h target k sv =
     (if sv \<noteq> Undefined \<or> \<not> has_key h target k then assign target k sv else target)"
| "merge_props h target [] = target"
| "merge_props h target ((k, sv) # qs) = merge_props h (merge_key h target k sv) qs"
| "merge_elems h target i [] = target"
| "merge_elems h target i (x # xs) = merge_elems h (merge_key h target (nat_text i) x) (Suc i) xs"

text \<open>The enumerable keys of a string source are its indices, its characters the values.\<close>

definition lodash_merge :: "host \<Rightarrow> jsval \<Rightarrow> jsval \<Rightarrow> jsval" where
  "lodash_merge h object source =
     (case source of
        Obj qs \<Rightarrow> merge_props h object qs
      | Arr xs qs \<Rightarrow> merge_props h (merge_elems h object 0 xs) qs
      | Str s \<Rightarrow> merge_elems h object 0 (map (\<lambda>c. Str [c]) s)
      | _ \<Rightarrow> object)"

section \<open>The store\<close>

text \<open>
  The private fields of \<open>Config\<close>, and the host that the instance runs on.
  \<open>#dictionary = { self: this.#config }\<close> binds \<open>self\<close> to the definition tree by
  reference: while \<open>self_live\<close> holds, the entry \<open>self\<close> of the dictionary reads as the
  current \<open>config\<close>.  \<open>function_table\<close> is \<open>#functions\<close>, the object that the
  constructor is given (\<open>{}\<close> by default); a function in it is a host value.
\<close>

record store =
  data :: jsval
  config :: jsval
  dictionary :: jsval
  self_live :: bool
  function_table :: jsval
  host :: host

text \<open>The dictionary as an object, \<open>self\<close> showing the definition tree.\<close>

definition dictionary_view :: "store \<Rightarrow> jsval" where
  "dictionary_view st =
     (if self_live st then assign (dictionary st) ''self'' (config st) else dictionary st)"

text \<open>\<open>this.#dictionary[namespace]\<close>; an \<open>undefined\<close> namespace reads the key \<open>undefined\<close>.\<close>

definition ns_key :: "string option \<Rightarrow> string" where
  "ns_key ns = (case ns of None \<Rightarrow> ''undefined'' | Some n \<Rightarrow> n)"

definition dict_ns :: "store \<Rightarrow> string option \<Rightarrow> jsval" where
  "dict_ns st ns = get_prop (host st) (dictionary_view st) (ns_key ns)"

text \<open>\<open>get(key, defaultValue)\<close> for a string key.\<close>

definition get_str :: "store \<Rightarrow> string \<Rightarrow> jsval \<Rightarrow> jsval" where
  "get_str st key defaultValue =
     (if key = [] then data st else lodash_get (host st) (data st) (colons_to_dots key) defaultValue)"

text \<open>
  \<open>get(key, defaultValue)\<close>: every falsy key returns the whole resolved tree; a truthy key
  that is no string has no \<open>replace\<close> method.
\<close>

definition store_get :: "store \<Rightarrow> jsval \<Rightarrow> jsval \<Rightarrow> error + jsval" where
  "store_get st key defaultValue =
     (if \<not> truthy key then Inr (data st)
      else (case key of
              Str k \<Rightarrow> Inr (lodash_get (host st) (data st) (colons_to_dots k) defaultValue)
            | _ \<Rightarrow> Inl Type_error))"

section \<open>Substitution, richer variant\<close>

text \<open>\<open>const [key, ...args] = tuple.split(',').map(t => t.trim())\<close>.\<close>

definition tokens :: "string \<Rightarrow> string list" where
  "tokens tuple = map trim (split_on CHR '','' tuple)"

text \<open>
  \<open>this.#functions[namespace]?.(...args)\<close>: the member is read from the functions object,
  own or inherited; \<open>undefined\<close> and \<open>null\<close> short-circuit to \<open>undefined\<close>; a
  host value is called as a method of the functions object; the call of any other value is
  a \<open>TypeError\<close>, and so is the reading of a member of \<open>null\<close> or \<open>undefined\<close>.
\<close>

definition call_member :: "store \<Rightarrow> string \<Rightarrow> jsval list \<Rightarrow> error + jsval" where
  "call_member st name args =
     (if function_table st = Undefined \<or> function_table st = Null then Inl Type_error
      else (case get_prop (host st) (function_table st) name of
              Undefined \<Rightarrow> Inr Undefined
            | Null \<Rightarrow> Inr Undefined
            | Native n \<Rightarrow> call_function (host st) n (function_table st) args
            | _ \<Rightarrow> Inl Type_error))"

text \<open>
  The callback of \<open>replace\<close> for one match with sigil \<open>id\<close> (here \<open>sigil\<close>) and group \<open>val\<close>: the
  substituted value and the default value it leaves behind, or the error thrown.
\<close>

definition callback :: "store \<Rightarrow> char \<Rightarrow> string \<Rightarrow> jsval \<Rightarrow> error + jsval \<times> jsval" where
  "callback st sigil val defaultValue =
     (let (namespace, tuple) =
            (case split_colon val of Some (n, t) \<Rightarrow> (Some n, t) | None \<Rightarrow> (None, []));
          key = hd (tokens tuple);
          args = tl (tokens tuple)
      in if sigil = CHR ''@''
         then (case call_member st (ns_key namespace)
                      (get_str st key (Str key) # map (\<lambda>k. get_str st k (Str k)) args) of
                 Inl e \<Rightarrow> Inl e
               | Inr v \<Rightarrow> Inr (v, defaultValue))
         else (let defaultValue' =
                     (case find (\<lambda>fb. fb \<noteq> ''undefined'') args of
                        Some fb \<Rightarrow> Str fb
                      | None \<Rightarrow> defaultValue)
               in Inr (lodash_get (host st) (dict_ns st namespace) key defaultValue', defaultValue')))"

text \<open>
  \<open>template.replace(regex, callback)\<close>: the new text, and the variables the callbacks
  share (\<open>defaultValue\<close>, \<open>substitutedValue\<close>, \<open>isFinalSubstitution\<close>) after the last one.
  Each match calls the callback and converts its result to a string before the next match
  is looked at; the first error ends the call.
\<close>

fun replace_with :: "store \<Rightarrow> string \<Rightarrow> segment list \<Rightarrow> jsval \<times> jsval \<times> bool
    \<Rightarrow> error + string \<times> jsval \<times> jsval \<times> bool" where
  "replace_with st template [] vars = Inr ([], vars)"
| "replace_with st template (Lit c # segs) vars =
     (case replace_with st template segs vars of
        Inl e \<Rightarrow> Inl e
      | Inr (out, vars') \<Rightarrow> Inr (c # out, vars'))"
| "replace_with st template (Match sigil val # segs) (defaultValue, substitutedValue, isFinal) =
     (case callback st sigil val defaultValue of
        Inl e \<Rightarrow> Inl e
      | Inr (v, defaultValue') \<Rightarrow>
          (case to_text (host st) v of
             Inl e \<Rightarrow> Inl e
           | Inr t \<Rightarrow>
               (case replace_with st template segs
                       (defaultValue', v, template = sigil # CHR ''{'' # val @ ''}'') of
                  Inl e \<Rightarrow> Inl e
                | Inr (out, vars') \<Rightarrow> Inr (t @ out, vars'))))"

function substitute :: "store \<Rightarrow> jsval \<Rightarrow> jsval \<Rightarrow> nat \<Rightarrow> error + jsval" where
  "substitute st template defaultValue depth =
     (case template of
        Str s \<Rightarrow>
          if 10 < Suc depth \<or> \<not> has_match is_sigil s then Inr template
          else (case replace_with st s (segments is_sigil s) (defaultValue, Undefined, False) of
                  Inl e \<Rightarrow> Inl e
                | Inr (out, defaultValue', substitutedValue, isFinal) \<Rightarrow>
                    (case substitute st (Str out) defaultValue' (Suc depth) of
                       Inl e \<Rightarrow> Inl e
                     | Inr transformedValue \<Rightarrow>
                         Inr (if isFinal \<and> \<not> is_string substitutedValue then substitutedValue
                              else transformedValue)))
      | _ \<Rightarrow> Inr template)"
  by pat_completeness auto
termination
  by (relation "measure (\<lambda>(st, template, defaultValue, depth). 10 - depth)") auto

declare substitute.simps [simp del]

section \<open>Substitution, simpler variant\<close>

text \<open>\<open>const [key, defaultValue] = tuple.split(',').map(t => t.trim())\<close>; an empty greedy
  optional group leaves the namespace \<open>undefined\<close>.\<close>

definition callback_v1 :: "store \<Rightarrow> string \<Rightarrow> jsval" where
  "callback_v1 st val =
     (let (namespace, tuple) =
            (case split_last_colon val of
               Some (n, t) \<Rightarrow> (if n = [] then None else Some n, t)
             | None \<Rightarrow> (None, []));
          key = hd (tokens tuple);
          defaultValue = (case tl (tokens tuple) of [] \<Rightarrow> Undefined | d # _ \<Rightarrow> Str d)
      in lodash_get (host st) (dict_ns st namespace) key defaultValue)"

fun replace_v1 :: "store \<Rightarrow> segment list \<Rightarrow> error + string" where
  "replace_v1 st [] = Inr []"
| "replace_v1 st (Lit c # segs) =
     (case replace_v1 st segs of Inl e \<Rightarrow> Inl e | Inr out \<Rightarrow> Inr (c # out))"
| "replace_v1 st (Match sigil val # segs) =
     (case to_text (host st) (callback_v1 st val) of
        Inl e \<Rightarrow> Inl e
      | Inr t \<Rightarrow> (case replace_v1 st segs of Inl e \<Rightarrow> Inl e | Inr out \<Rightarrow> Inr (t @ out)))"

function substitute_v1 :: "store \<Rightarrow> jsval \<Rightarrow> nat \<Rightarrow> error + jsval" where
  "substitute_v1 st v depth =
     (case v of
        Str s \<Rightarrow>
          if 5 < Suc depth \<or> \<not> has_match is_dollar s then Inr v
          else (case replace_v1 st (segments is_dollar s) of
                  Inl e \<Rightarrow> Inl e
                | Inr out \<Rightarrow> substitute_v1 st (Str out) (Suc depth))
      | _ \<Rightarrow> Inr v)"
  by pat_completeness auto
termination
  by (relation "measure (\<lambda>(st, v, depth). 5 - depth)") auto

declare substitute_v1.simps [simp del]

section \<open>Resolution\<close>

definition is_quote :: "char \<Rightarrow> bool" where
  "is_quote c \<longleftrightarrow> c = CHR 0x27 \<or> c = CHR 0x22"

text \<open>\<open>$value.replace(/^['"](.*)['"]$/, '$1')\<close>.\<close>

definition strip_quotes :: "string \<Rightarrow> string" where
  "strip_quotes s =
     (if 2 \<le> length s \<and> is_quote (hd s) \<and> is_quote (last s)
         \<and> \<not> list_ex is_line_terminator (butlast (tl s))
      then butlast (tl s) else s)"

text \<open>What \<open>resolve\<close> stores for a leaf \<open>value\<close> whose substitution gave \<open>$value\<close>.\<close>

definition coerce :: "jsval \<Rightarrow> jsval \<Rightarrow> jsval" where
  "coerce v v' =
     (case v' of
        Str s \<Rightarrow>
          if v' = v then v'
          else if s = ''undefined'' then Undefined
          else if s = ''null'' then Null
          else if s = ''true'' then Bool True
          else if s = ''false'' then Bool False
          else Str (strip_quotes s)
      | _ \<Rightarrow> v')"

text \<open>
  The value that \<open>resolve\<close> stores for a leaf: its substitution, then the coercion; or
  the error that the substitution throws.
\<close>

definition leaf_result :: "store \<Rightarrow> jsval \<Rightarrow> error + jsval" where
  "leaf_result st v =
     (case substitute st v Undefined 0 of Inl err \<Rightarrow> Inl err | Inr v' \<Rightarrow> Inr (coerce v v'))"

definition leaf_result_v1 :: "store \<Rightarrow> jsval \<Rightarrow> error + jsval" where
  "leaf_result_v1 st v =
     (case substitute_v1 st v 0 of Inl err \<Rightarrow> Inl err | Inr v' \<Rightarrow> Inr (coerce v v'))"

text \<open>The body of the loop of \<open>resolve\<close> for one flattened entry.\<close>

definition resolve_entry :: "string \<times> jsval \<Rightarrow> store \<Rightarrow> error + store" where
  "resolve_entry e st =
     (case leaf_result st (snd e) of
        Inl err \<Rightarrow> Inl err
      | Inr v \<Rightarrow> Inr (st\<lparr>data := lodash_set (host st) (data st) (fst e) v\<rparr>))"

definition resolve_entry_v1 :: "string \<times> jsval \<Rightarrow> store \<Rightarrow> error + store" where
  "resolve_entry_v1 e st =
     (case leaf_result_v1 st (snd e) of
        Inl err \<Rightarrow> Inl err
      | Inr v \<Rightarrow> Inr (st\<lparr>data := lodash_set (host st) (data st) (fst e) v\<rparr>))"

text \<open>
  \<open>entries.forEach(...)\<close>: the entries in order; an error ends the loop and leaves the
  store as the entries before it have made it.
\<close>

fun run_entries :: "(string \<times> jsval \<Rightarrow> store \<Rightarrow> error + store) \<Rightarrow> (string \<times> jsval) list
    \<Rightarrow> store \<Rightarrow> error option \<times> store" where
  "run_entries entry [] st = (None, st)"
| "run_entries entry (e # es) st =
     (case entry e st of
        Inl err \<Rightarrow> (Some err, st)
      | Inr st' \<Rightarrow> run_entries entry es st')"

text \<open>\<open>merge(this.#dictionary, dictionary)\<close>; the binding of \<open>self\<close> to the definition
  tree lasts as long as the merge leaves that entry alone.\<close>

definition merge_dictionary :: "store \<Rightarrow> jsval \<Rightarrow> store" where
  "merge_dictionary st d =
     (let merged = lodash_merge (host st) (dictionary_view st) d
      in st\<lparr>dictionary := merged,
            self_live := (self_live st \<and> get_prop (host st) merged ''self'' = config st)\<rparr>)"

text \<open>
  \<open>resolve(dictionary = {})\<close>: the error, if one is thrown, and the store after the call.
  Reading \<open>dictionary.self\<close> of \<open>null\<close> is a type error.
\<close>

definition resolve_with :: "(string \<times> jsval \<Rightarrow> store \<Rightarrow> error + store) \<Rightarrow> store \<Rightarrow> jsval
    \<Rightarrow> error option \<times> store" where
  "resolve_with entry st arg =
     (let d = (if arg = Undefined then Obj [] else arg)
      in if d = Null then (Some Type_error, st)
         else if truthy (get_prop (host st) d ''self'') then (Some Reserved_key, st)
         else (let st' = merge_dictionary st d
               in run_entries entry (flatten (config st')) st'))"

definition resolve :: "store \<Rightarrow> jsval \<Rightarrow> error option \<times> store" where
  "resolve = resolve_with resolve_entry"

definition resolve_v1 :: "store \<Rightarrow> jsval \<Rightarrow> error option \<times> store" where
  "resolve_v1 = resolve_with resolve_entry_v1"

section \<open>Example stores\<close>

text \<open>
  A host for the examples.  It describes what every host has for a plain object: the
  twelve members that the object inherits from \<open>Object.prototype\<close>, which are the
  properties of \<open>Object.prototype\<close> itself, their names and their calls as methods of a
  plain object.  It describes no prototype of an array, of a string or of another
  primitive, and of a function no property but its name; the examples read none of
  these.  The functions \<open>eq\<close> and \<open>id\<close> are the
  ones that the examples register: \<open>eq: (a, b) => Boolean(a === b)\<close> of the tests, on
  primitive values (the comparison of two objects is one of identity), and \<open>id: x => x\<close>.
\<close>

definition object_methods :: "string list" where
  "object_methods = [''toString'', ''toLocaleString'', ''valueOf'', ''hasOwnProperty'',
     ''isPrototypeOf'', ''propertyIsEnumerable'', ''__defineGetter__'', ''__defineSetter__'',
     ''__lookupGetter__'', ''__lookupSetter__'']"

text \<open>\<open>o[k]\<close> for a plain object \<open>o\<close> without an own property \<open>k\<close>.\<close>

definition object_prototype :: "string \<Rightarrow> jsval" where
  "object_prototype k =
     (if k = ''constructor'' then Native ''Object''
      else if k = ''__proto__'' then Native ''Object.prototype''
      else if k \<in> set object_methods then Native (''Object.prototype.'' @ k)
      else Undefined)"

text \<open>The name of a host function: the last segment of the name it is known by.\<close>

definition short_name :: "string \<Rightarrow> string" where
  "short_name n = rev (takeWhile (\<lambda>c. c \<noteq> CHR ''.'') (rev n))"

text \<open>\<open>Object.prototype.toString.call(v)\<close>.\<close>

fun class_tag :: "jsval \<Rightarrow> string" where
  "class_tag Undefined = ''[object Undefined]''"
| "class_tag Null = ''[object Null]''"
| "class_tag (Bool b) = ''[object Boolean]''"
| "class_tag (Num n) = ''[object Number]''"
| "class_tag (Str s) = ''[object String]''"
| "class_tag (Arr xs ps) = ''[object Array]''"
| "class_tag (Obj ps) = ''[object Object]''"
| "class_tag (Native n) = (if n = ''Object.prototype'' then ''[object Object]'' else ''[object Function]'')"

definition nth_arg :: "jsval list \<Rightarrow> nat \<Rightarrow> jsval" where
  "nth_arg args i = (if i < length args then args ! i else Undefined)"

definition eq_fn :: "jsval list \<Rightarrow> error + jsval" where
  "eq_fn args =
     (if is_object (nth_arg args 0) \<and> is_object (nth_arg args 1) then Inl Not_described
      else Inr (Bool (nth_arg args 0 = nth_arg args 1)))"

definition first_arg :: "jsval list \<Rightarrow> jsval" where
  "first_arg args = nth_arg args 0"

text \<open>
  The members of \<open>Object.prototype\<close> called as methods of a plain object \<open>this\<close> with
  a string as the first argument, where they take one.  \<open>Object(v)\<close> returns an object
  \<open>v\<close> as it is; the wrapper that it makes of a primitive is no value of this
  development.
\<close>

definition call_object_method :: "string \<Rightarrow> (string \<times> jsval) list \<Rightarrow> jsval list \<Rightarrow> error + jsval" where
  "call_object_method m ps args =
     (if m = ''toString'' then Inr (Str ''[object Object]'')
      else if m = ''toLocaleString'' then
        (if has_own ps ''toString'' then Inl Not_described else Inr (Str ''[object Object]''))
      else if m = ''valueOf'' then Inr (Obj ps)
      else if m = ''isPrototypeOf'' then Inr (Bool False)
      else if m = ''hasOwnProperty'' \<or> m = ''propertyIsEnumerable'' then
        (case nth_arg args 0 of Str k \<Rightarrow> Inr (Bool (has_own ps k)) | _ \<Rightarrow> Inl Not_described)
      else if m = ''__lookupGetter__'' \<or> m = ''__lookupSetter__'' then
        (case nth_arg args 0 of
           Str k \<Rightarrow> if k = ''__proto__'' \<and> \<not> has_own ps k then Inl Not_described else Inr Undefined
         | _ \<Rightarrow> Inl Not_described)
      else if m = ''__defineGetter__'' \<or> m = ''__defineSetter__'' then
        (case nth_arg args 1 of Native f \<Rightarrow> Inl Not_described | _ \<Rightarrow> Inl Type_error)
      else Inl Not_described)"

definition sample_host :: host where
  "sample_host =
     \<lparr>inherited = (\<lambda>r k.
        case r of
          Plain_object \<Rightarrow> object_prototype k
        | Host_value n \<Rightarrow>
            if n = ''Object.prototype'' then (if k = ''__proto__'' then Null else object_prototype k)
            else if k = ''name'' \<and> (n = ''Object'' \<or> n \<in> set (map (\<lambda>m. ''Object.prototype.'' @ m) object_methods))
            then Str (short_name n) else Undefined
        | _ \<Rightarrow> Undefined),
      call_function = (\<lambda>n this args.
        if n = ''eq'' then eq_fn args
        else if n = ''id'' then Inr (first_arg args)
        else if n = ''Object.prototype'' then Inl Type_error
        else if n = ''Object'' then
          (if is_object (nth_arg args 0) then Inr (nth_arg args 0)
           else if nth_arg args 0 = Undefined \<or> nth_arg args 0 = Null then Inr (Obj [])
           else Inl Not_described)
        else if n \<in> set (map (\<lambda>m. ''Object.prototype.'' @ m) object_methods) then
          (case this of
             Obj ps \<Rightarrow> call_object_method (short_name n) ps args
           | _ \<Rightarrow> Inl Not_described)
        else Inl Not_described),
      function_text = (\<lambda>n.
        if n = ''eq'' then ''(a, b) => Boolean(a === b)''
        else if n = ''id'' then ''x => x''
        else if n = ''Object.prototype'' then ''[object Object]''
        else ''function '' @ short_name n @ ''() { [native code] }'')\<rparr>"

text \<open>
  The private fields as the class initialisers and the merge of the constructor's data
  leave them, before the constructor's call of \<open>resolve\<close>.
\<close>

definition initial_store :: "jsval \<Rightarrow> jsval \<Rightarrow> store" where
  "initial_store tree fns =
     \<lparr>data = Obj [], config = tree, dictionary = Obj [(''self'', tree)], self_live = True,
      function_table = fns, host = sample_host\<rparr>"

text \<open>\<open>functions = {}\<close>, the default of the constructor.\<close>

definition no_functions :: jsval where
  "no_functions = Obj []"

text \<open>\<open>{ a: 'x', b: 'y', ref: '${self:a}-${self:b}' }\<close>\<close>

definition sibling_store :: store where
  "sibling_store =
     initial_store (Obj [(''a'', Str ''x''), (''b'', Str ''y''), (''ref'', Str ''${self:a}-${self:b}'')])
       no_functions"

text \<open>\<open>{ a: '${self:a}' }\<close>\<close>

definition cycle_store :: store where
  "cycle_store = initial_store (Obj [(''a'', Str ''${self:a}'')]) no_functions"

text \<open>\<open>{ g: 'x${self:g}' }\<close>: every pass puts one more \<open>x\<close> in front.\<close>

definition growing_store :: store where
  "growing_store = initial_store (Obj [(''g'', Str ''x${self:g}'')]) no_functions"

text \<open>\<open>{ app: { name: 'gozio-config' } }\<close>\<close>

definition app_store :: store where
  "app_store = initial_store (Obj [(''app'', Obj [(''name'', Str ''gozio-config'')])]) no_functions"

text \<open>\<open>{ x: '${foo}' }\<close>\<close>

definition nocolon_store :: store where
  "nocolon_store = initial_store (Obj [(''x'', Str ''${foo}'')]) no_functions"

text \<open>The tree of \<open>app_store\<close> with \<open>eq\<close> registered.\<close>

definition eq_store :: store where
  "eq_store =
     initial_store (Obj [(''app'', Obj [(''name'', Str ''gozio-config'')])])
       (Obj [(''eq'', Native ''eq'')])"

definition defaults_store :: store where
  "defaults_store =
     initial_store
       (Obj [(''u'', Str (''${self:app.nothing, '' @ [CHR 0x22] @ ''undefined'' @ [CHR 0x22] @ ''}'')),
             (''b'', Str ''${self:app.nothing, true}''),
             (''n'', Str ''${self:app.nothing}'')])
       no_functions"

text \<open>The four texts that \<open>resolve\<close> turns into typed values.\<close>

definition literal_tokens :: "string list" where
  "literal_tokens = [''undefined'', ''null'', ''true'', ''false'']"

text \<open>The tree \<open>{ a: '@\<close>\<open>{id:b}', b: '@\<close>\<open>{id:c}', c: 'x' }\<close> with \<open>id\<close> registered.\<close>

definition chain_store :: store where
  "chain_store =
     initial_store
       (Obj [(''a'', Str (CHR ''@'' # ''{id:b}'')), (''b'', Str (CHR ''@'' # ''{id:c}'')),
             (''c'', Str ''x'')])
       (Obj [(''id'', Native ''id'')])"

section \<open>Paths and writes\<close>

text \<open>The value of a decimal digit.\<close>

definition digit_of :: "char \<Rightarrow> nat" where
  "digit_of c = of_char c - 48"

text \<open>Two paths are independent when neither is equal to or a prefix of the other.\<close>

fun independent :: "string list \<Rightarrow> string list \<Rightarrow> bool" where
  "independent [] q = False"
| "independent p [] = False"
| "independent (a # p) (b # q) = (a \<noteq> b \<or> independent p q)"

fun pairwise_independent :: "string list list \<Rightarrow> bool" where
  "pairwise_independent [] = True"
| "pairwise_independent (p # ps) = (list_all (independent p) ps \<and> pairwise_independent ps)"

text \<open>
  A tree as JSON or YAML gives it: the keys of an object are distinct and hold no dot, and
  an array has no named properties.
\<close>

fun plain_tree :: "jsval \<Rightarrow> bool" where
  "plain_tree (Obj ps) =
     (distinct (map fst ps) \<and> list_all (\<lambda>p. CHR ''.'' \<notin> set (fst p) \<and> plain_tree (snd p)) ps)"
| "plain_tree (Arr xs ps) = (ps = [] \<and> list_all plain_tree xs)"
| "plain_tree v = True"

text \<open>The entries lie below a path, one key further at least, and do not overlap.\<close>

definition below :: "string list \<Rightarrow> string set \<Rightarrow> (string \<times> jsval) list \<Rightarrow> bool" where
  "below pre ks es \<longleftrightarrow>
     (\<forall>e \<in> set es. \<exists>k \<in> ks. \<exists>r. to_path (fst e) = pre @ k # r)
     \<and> pairwise_independent (map (to_path \<circ> fst) es)"

text \<open>The writes of one resolution pass, path by path.\<close>

definition set_all :: "host \<Rightarrow> (string list \<times> jsval) list \<Rightarrow> jsval \<Rightarrow> jsval" where
  "set_all h ws d = fold (\<lambda>w d. base_set h d (fst w) (snd w)) ws d"

text \<open>The container that \<open>baseSet\<close> steps into at key \<open>k\<close> when the next key is \<open>k'\<close>.\<close>

definition child :: "host \<Rightarrow> jsval \<Rightarrow> string \<Rightarrow> string \<Rightarrow> jsval" where
  "child h d k k' =
     (if is_object (get_prop h d k) then get_prop h d k else if is_index k' then Arr [] [] else Obj [])"

text \<open>
  The path and the value that \<open>resolve\<close> writes for one flattened entry whose substitution
  raises no error.
\<close>

definition leaf_value :: "store \<Rightarrow> string \<times> jsval \<Rightarrow> string list \<times> jsval" where
  "leaf_value st e =
     (to_path (fst e), (case leaf_result st (snd e) of Inl err \<Rightarrow> Undefined | Inr v \<Rightarrow> v))"

text \<open>A segment of a scan that is no function-form placeholder.\<close>

fun no_call :: "segment \<Rightarrow> bool" where
  "no_call (Match c val) = (c \<noteq> CHR ''@'')"
| "no_call (Lit c) = True"

text \<open>
  The substitution of a leaf evaluates no function-form placeholder: no pass over it finds
  a match with the sigil \<open>@\<close>.  The recursion is that of \<open>substitute\<close>.
\<close>

function value_form_only :: "store \<Rightarrow> jsval \<Rightarrow> jsval \<Rightarrow> nat \<Rightarrow> bool" where
  "value_form_only st template defaultValue depth =
     (case template of
        Str s \<Rightarrow>
          if 10 < Suc depth \<or> \<not> has_match is_sigil s then True
          else if \<not> list_all no_call (segments is_sigil s) then False
          else (case replace_with st s (segments is_sigil s) (defaultValue, Undefined, False) of
                  Inl e \<Rightarrow> True
                | Inr (out, defaultValue', substitutedValue, isFinal) \<Rightarrow>
                    value_form_only st (Str out) defaultValue' (Suc depth))
      | _ \<Rightarrow> True)"
  by pat_completeness auto
termination
  by (relation "measure (\<lambda>(st, template, defaultValue, depth). 10 - depth)") auto

declare value_form_only.simps [simp del]

text \<open>
  A key that a write can step through or end in as the trees of this development describe
  it: in dot notation, not \<open>length\<close>, whose assignment an array treats in its own way,
  and no name under which a value inherits an object or a function, into which the write
  would go.
\<close>

definition plain_key :: "host \<Rightarrow> string \<Rightarrow> bool" where
  "plain_key h k \<longleftrightarrow> dotted k \<and> k \<noteq> ''length'' \<and> (\<forall>r. \<not> is_object (inherited h r k))"

section \<open>The store on a heap\<close>

text \<open>
  Objects and arrays with identity.  A value is a primitive or a reference; the heap is the
  list of all objects, an address is an index into it, and a new object goes to its end.
  The functions of this section repeat those above with references in the place of
  subtrees: \<open>get\<close> returns a reference, \<open>set\<close> stores the one it is given.  They
  read own properties only and take the registered functions as a table of their names:
  the scenario of this section reads no inherited property and calls no function.
\<close>

type_synonym addr = nat

datatype hval = HUndefined | HNull | HBool bool | HNum int | HStr string | Ref addr

datatype hobj = HObj "(string \<times> hval) list" | HArr "hval list" "(string \<times> hval) list"

type_synonym heap = "hobj list"

fun is_ref :: "hval \<Rightarrow> bool" where
  "is_ref (Ref _) = True"
| "is_ref _ = False"

fun is_hstr :: "hval \<Rightarrow> bool" where
  "is_hstr (HStr _) = True"
| "is_hstr _ = False"

fun upd_h :: "(string \<times> hval) list \<Rightarrow> string \<Rightarrow> hval \<Rightarrow> (string \<times> hval) list" where
  "upd_h [] k v = [(k, v)]"
| "upd_h ((k', v') # ps) k v = (if k' = k then (k, v) # ps else (k', v') # upd_h ps k v)"

fun lookup_h :: "(string \<times> hval) list \<Rightarrow> string \<Rightarrow> hval" where
  "lookup_h ps k = (case map_of ps k of Some v \<Rightarrow> v | None \<Rightarrow> HUndefined)"

text \<open>\<open>object[key]\<close>; a dangling reference reads as \<open>undefined\<close>.\<close>

fun get_prop_h :: "heap \<Rightarrow> hval \<Rightarrow> string \<Rightarrow> hval" where
  "get_prop_h h (Ref a) k =
     (if a < length h
      then (case h ! a of
              HObj ps \<Rightarrow> lookup_h ps k
            | HArr xs ps \<Rightarrow>
                if k = ''length'' then HNum (int (length xs))
                else (case array_index k of
                        Some i \<Rightarrow> if i < length xs then xs ! i else HUndefined
                      | None \<Rightarrow> lookup_h ps k))
      else HUndefined)"
| "get_prop_h h (HStr s) k =
     (if k = ''length'' then HNum (int (length s))
      else (case array_index k of
              Some i \<Rightarrow> if i < length s then HStr [s ! i] else HUndefined
            | None \<Rightarrow> HUndefined))"
| "get_prop_h h v k = HUndefined"

fun assign_obj :: "hobj \<Rightarrow> string \<Rightarrow> hval \<Rightarrow> hobj" where
  "assign_obj (HObj ps) k v = HObj (upd_h ps k v)"
| "assign_obj (HArr xs ps) k v =
     (if k = ''length'' then HArr xs ps
      else (case array_index k of
              Some i \<Rightarrow>
                if i < length xs then HArr (xs[i := v]) ps
                else HArr (xs @ replicate (i - length xs) HUndefined @ [v]) ps
            | None \<Rightarrow> HArr xs (upd_h ps k v)))"

text \<open>\<open>object[key] = value\<close> on the object at an address: a mutation in place.\<close>

definition assign_h :: "heap \<Rightarrow> addr \<Rightarrow> string \<Rightarrow> hval \<Rightarrow> heap" where
  "assign_h h a k v = (if a < length h then h[a := assign_obj (h ! a) k v] else h)"

fun base_get_h :: "heap \<Rightarrow> hval \<Rightarrow> string list \<Rightarrow> hval" where
  "base_get_h h v [] = v"
| "base_get_h h v (k # ks) =
     (if v = HUndefined \<or> v = HNull then HUndefined else base_get_h h (get_prop_h h v k) ks)"

definition lodash_get_h :: "heap \<Rightarrow> hval \<Rightarrow> string \<Rightarrow> hval \<Rightarrow> hval" where
  "lodash_get_h h object path defaultValue =
     (let result = base_get_h h object (to_path path)
      in if result = HUndefined then defaultValue else result)"

text \<open>
  lodash \<open>baseSet\<close>: the last key receives the value as it is given, a reference
  included; a missing container on the way is a new object on the heap.
\<close>

fun base_set_h :: "heap \<Rightarrow> hval \<Rightarrow> string list \<Rightarrow> hval \<Rightarrow> heap" where
  "base_set_h h object [] v = h"
| "base_set_h h object [k] v = (case object of Ref a \<Rightarrow> assign_h h a k v | _ \<Rightarrow> h)"
| "base_set_h h object (k # k' # ks) v =
     (case object of
        Ref a \<Rightarrow>
          if is_ref (get_prop_h h object k)
          then base_set_h h (get_prop_h h object k) (k' # ks) v
          else base_set_h
                 (assign_h (h @ [if is_index k' then HArr [] [] else HObj []]) a k (Ref (length h)))
                 (Ref (length h)) (k' # ks) v
      | _ \<Rightarrow> h)"

definition lodash_set_h :: "heap \<Rightarrow> hval \<Rightarrow> string \<Rightarrow> hval \<Rightarrow> heap" where
  "lodash_set_h h object path v = base_set_h h object (to_path path) v"

text \<open>
  \<open>String(v)\<close>.  The join of an array follows references; the fuel bounds the nesting,
  and the number of objects on the heap is enough for every heap without a cycle.
\<close>

fun to_text_h :: "nat \<Rightarrow> heap \<Rightarrow> hval \<Rightarrow> string" where
  "to_text_h 0 h v = []"
| "to_text_h (Suc n) h v =
     (case v of
        HUndefined \<Rightarrow> ''undefined''
      | HNull \<Rightarrow> ''null''
      | HBool b \<Rightarrow> (if b then ''true'' else ''false'')
      | HNum i \<Rightarrow> int_text i
      | HStr s \<Rightarrow> s
      | Ref a \<Rightarrow>
          if a < length h
          then (case h ! a of
                  HObj ps \<Rightarrow> ''[object Object]''
                | HArr xs ps \<Rightarrow>
                    join_with '',''
                      (map (\<lambda>x. if x = HUndefined \<or> x = HNull then [] else to_text_h n h x) xs))
          else [])"

text \<open>
  Modelled from the spec: \<open>Util.flatten\<close>, as above, on the heap.  On a tree with a cycle
  the recursion of the code does not end: the result is \<open>None\<close> when the fuel runs out.
\<close>

definition join_key :: "string \<Rightarrow> string \<Rightarrow> string" where
  "join_key key k = (if key = [] then k else key @ ''.'' @ k)"

fun flatten_val_h :: "nat \<Rightarrow> heap \<Rightarrow> string \<Rightarrow> hval \<Rightarrow> (string \<times> hval) list option" where
  "flatten_val_h 0 h key v = None"
| "flatten_val_h (Suc n) h key v =
     (case v of
        Ref a \<Rightarrow>
          if a < length h \<and> h ! a \<noteq> HObj [] \<and> h ! a \<noteq> HArr [] []
          then (case h ! a of
                  HObj ps \<Rightarrow>
                    map_option concat
                      (those (map (\<lambda>p. flatten_val_h n h (join_key key (fst p)) (snd p)) ps))
                | HArr xs ps \<Rightarrow>
                    map_option concat
                      (those (map (\<lambda>p. flatten_val_h n h (join_key key (nat_text (fst p))) (snd p))
                                (enumerate 0 xs)
                              @ map (\<lambda>p. flatten_val_h n h (join_key key (fst p)) (snd p)) ps)))
          else Some [(key, v)]
      | _ \<Rightarrow> Some [(key, v)])"

definition flatten_h :: "heap \<Rightarrow> addr \<Rightarrow> (string \<times> hval) list option" where
  "flatten_h h root =
     (if root < length h \<and> h ! root \<noteq> HObj []
      then map_option (\<lambda>es. fold (\<lambda>e acc. upd_h acc (fst e) (snd e)) es [])
             (flatten_val_h (Suc (length h)) h [] (Ref root))
      else Some [])"

text \<open>
  The private fields as addresses: \<open>#data\<close>, \<open>#config\<close> and \<open>#dictionary\<close> are objects
  on the heap, and the entry \<open>self\<close> of the dictionary is the reference to \<open>#config\<close>.
\<close>

record store_h =
  heap :: heap
  data_h :: addr
  config_h :: addr
  dictionary_h :: addr
  function_table_h :: "string \<Rightarrow> (hval list \<Rightarrow> hval) option"

text \<open>\<open>new Config()\<close> with no data and the given functions.\<close>

definition new_store_h :: "(string \<Rightarrow> (hval list \<Rightarrow> hval) option) \<Rightarrow> store_h" where
  "new_store_h fns =
     \<lparr>heap = [HObj [], HObj [], HObj [(''self'', Ref 1)]], data_h = 0, config_h = 1,
      dictionary_h = 2, function_table_h = fns\<rparr>"

text \<open>\<open>get(key, defaultValue)\<close> for a string key.\<close>

definition get_h :: "store_h \<Rightarrow> string \<Rightarrow> hval \<Rightarrow> hval" where
  "get_h st key defaultValue =
     (if key = [] then Ref (data_h st)
      else lodash_get_h (heap st) (Ref (data_h st)) (colons_to_dots key) defaultValue)"

definition callback_h :: "store_h \<Rightarrow> char \<Rightarrow> string \<Rightarrow> hval \<Rightarrow> hval \<times> hval" where
  "callback_h st sigil val defaultValue =
     (let (namespace, tuple) =
            (case split_colon val of Some (n, t) \<Rightarrow> (Some n, t) | None \<Rightarrow> (None, []));
          key = hd (tokens tuple);
          args = tl (tokens tuple)
      in if sigil = CHR ''@''
         then ((case function_table_h st (ns_key namespace) of
                  None \<Rightarrow> HUndefined
                | Some f \<Rightarrow> f (get_h st key (HStr key) # map (\<lambda>k. get_h st k (HStr k)) args)),
               defaultValue)
         else (let defaultValue' =
                     (case find (\<lambda>fb. fb \<noteq> ''undefined'') args of
                        Some fb \<Rightarrow> HStr fb
                      | None \<Rightarrow> defaultValue)
               in (lodash_get_h (heap st)
                     (get_prop_h (heap st) (Ref (dictionary_h st)) (ns_key namespace))
                     key defaultValue',
                   defaultValue')))"

fun replace_with_h :: "store_h \<Rightarrow> string \<Rightarrow> segment list \<Rightarrow> hval \<times> hval \<times> bool
    \<Rightarrow> string \<times> hval \<times> hval \<times> bool" where
  "replace_with_h st template [] vars = ([], vars)"
| "replace_with_h st template (Lit c # segs) vars =
     (case replace_with_h st template segs vars of (out, vars') \<Rightarrow> (c # out, vars'))"
| "replace_with_h st template (Match sigil val # segs) (defaultValue, substitutedValue, isFinal) =
     (case callback_h st sigil val defaultValue of
        (v, defaultValue') \<Rightarrow>
          (case replace_with_h st template segs
                  (defaultValue', v, template = sigil # CHR ''{'' # val @ ''}'') of
             (out, vars') \<Rightarrow> (to_text_h (Suc (length (heap st))) (heap st) v @ out, vars')))"

function substitute_h :: "store_h \<Rightarrow> hval \<Rightarrow> hval \<Rightarrow> nat \<Rightarrow> hval" where
  "substitute_h st template defaultValue depth =
     (case template of
        HStr s \<Rightarrow>
          if 10 < Suc depth \<or> \<not> has_match is_sigil s then template
          else (case replace_with_h st s (segments is_sigil s) (defaultValue, HUndefined, False) of
                  (out, defaultValue', substitutedValue, isFinal) \<Rightarrow>
                    (let transformedValue = substitute_h st (HStr out) defaultValue' (Suc depth)
                     in if isFinal \<and> \<not> is_hstr substitutedValue then substitutedValue
                        else transformedValue))
      | _ \<Rightarrow> template)"
  by pat_completeness auto
termination
  by (relation "measure (\<lambda>(st, template, defaultValue, depth). 10 - depth)") auto

declare substitute_h.simps [simp del]

definition coerce_h :: "hval \<Rightarrow> hval \<Rightarrow> hval" where
  "coerce_h v v' =
     (case v' of
        HStr s \<Rightarrow>
          if v' = v then v'
          else if s = ''undefined'' then HUndefined
          else if s = ''null'' then HNull
          else if s = ''true'' then HBool True
          else if s = ''false'' then HBool False
          else HStr (strip_quotes s)
      | _ \<Rightarrow> v')"

definition resolve_entry_h :: "string \<times> hval \<Rightarrow> store_h \<Rightarrow> store_h" where
  "resolve_entry_h e st =
     st\<lparr>heap := lodash_set_h (heap st) (Ref (data_h st)) (fst e)
                   (coerce_h (snd e) (substitute_h st (snd e) HUndefined 0))\<rparr>"

text \<open>
  \<open>resolve()\<close> without an argument: the merge of the empty dictionary changes nothing.
  The result is \<open>None\<close> when \<open>flatten\<close> does not return.
\<close>

definition resolve_h :: "store_h \<Rightarrow> store_h option" where
  "resolve_h st =
     map_option (\<lambda>es. fold resolve_entry_h es st) (flatten_h (heap st) (config_h st))"

text \<open>\<open>set(key, value)\<close>: lodash \<open>set\<close> on the definition tree, then \<open>resolve()\<close>.\<close>

definition set_h :: "store_h \<Rightarrow> string \<Rightarrow> hval \<Rightarrow> store_h option" where
  "set_h st key v =
     resolve_h (st\<lparr>heap := lodash_set_h (heap st) (Ref (config_h st)) (colons_to_dots key) v\<rparr>)"

text \<open>The caller's side: a new object, and an assignment to a property of an object it holds.\<close>

definition alloc :: "store_h \<Rightarrow> hobj \<Rightarrow> store_h \<times> hval" where
  "alloc st obj = (st\<lparr>heap := heap st @ [obj]\<rparr>, Ref (length (heap st)))"

definition mutate :: "store_h \<Rightarrow> hval \<Rightarrow> string \<Rightarrow> hval \<Rightarrow> store_h" where
  "mutate st object k v =
     (case object of Ref a \<Rightarrow> st\<lparr>heap := assign_h (heap st) a k v\<rparr> | _ \<Rightarrow> st)"

text \<open>What a reference shows: the object it points to.\<close>

definition deref :: "store_h \<Rightarrow> hval \<Rightarrow> hobj option" where
  "deref st v = (case v of Ref a \<Rightarrow> if a < length (heap st) then Some (heap st ! a) else None | _ \<Rightarrow> None)"

text \<open>
  The test ``Dynamic object by reference'': \<open>const obj = { a: 'a' }\<close>,
  \<open>config.set('app.object', obj)\<close>, \<open>obj.b = 'b'\<close>; then \<open>config.resolve()\<close>.
\<close>

definition after_set :: "store_h option" where
  "after_set =
     (case alloc (new_store_h (\<lambda>n. None)) (HObj [(''a'', HStr ''a'')]) of
        (st, obj) \<Rightarrow> set_h st ''app.object'' obj)"

definition after_mutation :: "store_h option" where
  "after_mutation = map_option (\<lambda>st. mutate st (Ref 3) ''b'' (HStr ''b'')) after_set"

definition after_resolve :: "store_h option" where
  "after_resolve = (case after_mutation of None \<Rightarrow> None | Some st \<Rightarrow> resolve_h st)"

section \<open>Facts about the regex scan\<close>

lemmas regex_defs = match_here_def rest_of_line_def is_sigil_def is_dollar_def
  is_line_terminator_def has_match_def

lemmas callback_defs = callback_def callback_v1_def call_member_def split_colon_def
  split_last_colon_def tokens_def trim_def is_space_def ns_key_def dict_ns_def
  dictionary_view_def lodash_get_def lookup_def cast_path_def to_path_def get_str_def
  colons_to_dots_def has_own_def Let_def

lemmas resolve_defs = resolve_def resolve_v1_def resolve_with_def merge_dictionary_def
  lodash_merge_def flatten_def resolve_entry_def resolve_entry_v1_def leaf_result_def
  leaf_result_v1_def coerce_def strip_quotes_def
  is_quote_def lodash_set_def is_index_def is_uint_def is_digit_def digits_value_def
  array_index_def store_get_def has_own_def

lemmas host_defs = sample_host_def object_prototype_def object_methods_def short_name_def
  call_object_method_def nth_arg_def eq_fn_def first_arg_def

lemmas store_defs = initial_store_def no_functions_def sibling_store_def cycle_store_def
  app_store_def nocolon_store_def growing_store_def host_defs

lemmas store_defs2 = eq_store_def defaults_store_def chain_store_def

lemma match_here_None_no_sig: "\<not> sig c \<Longrightarrow> match_here sig (c # r) = None"
  by (simp add: match_here_def split: list.splits)

lemma segments_no_sig: "\<not> list_ex sig s \<Longrightarrow> segments sig s = map Lit s"
  by (induction s) (simp_all add: match_here_None_no_sig)

lemma has_match_no_sig: "\<not> list_ex sig s \<Longrightarrow> \<not> has_match sig s"
  by (simp add: has_match_def segments_no_sig list_ex_iff)

lemma match_here_SomeD:
  assumes "match_here sig s = Some (val, rest)"
  shows "\<exists>c r. s = c # CHR ''{'' # r \<and> sig c
           \<and> val = takeWhile (\<lambda>x. x \<noteq> CHR ''}'') r
           \<and> rest = tl (dropWhile (\<lambda>x. x \<noteq> CHR ''}'') r)
           \<and> \<not> list_ex sig (rest_of_line r)
           \<and> CHR ''}'' \<in> set (rest_of_line r)"
  using assms by (auto simp: match_here_def list_ex_iff split: list.splits if_splits)

lemma takeWhile_brace_in_line:
  assumes "CHR ''}'' \<in> set (rest_of_line r)"
  shows "set (takeWhile (\<lambda>x. x \<noteq> CHR ''}'') r) \<subseteq> set (rest_of_line r)"
    and "takeWhile (\<lambda>x. x \<noteq> CHR ''}'') r = takeWhile (\<lambda>x. x \<noteq> CHR ''}'') (rest_of_line r)"
  using assms unfolding rest_of_line_def
  by (induction r) (auto simp: is_line_terminator_def split: if_splits)

lemma rest_of_line_no_lt: "\<not> list_ex is_line_terminator (rest_of_line r)"
  unfolding rest_of_line_def list_ex_iff by (auto dest: set_takeWhileD)

lemma match_here_group:
  assumes "match_here sig s = Some (val, rest)"
  shows "\<not> list_ex sig val" "CHR ''}'' \<notin> set val" "\<not> list_ex is_line_terminator val"
proof -
  from match_here_SomeD [OF assms] obtain c r where
    v: "val = takeWhile (\<lambda>x. x \<noteq> CHR ''}'') r"
    and ns: "\<not> list_ex sig (rest_of_line r)" and br: "CHR ''}'' \<in> set (rest_of_line r)"
    by blast
  have sub: "set val \<subseteq> set (rest_of_line r)"
    using takeWhile_brace_in_line(1) [OF br] v by simp
  show "\<not> list_ex sig val" using ns sub by (auto simp: list_ex_iff)
  show "CHR ''}'' \<notin> set val" using v by (auto dest: set_takeWhileD)
  show "\<not> list_ex is_line_terminator val"
    using rest_of_line_no_lt [of r] sub by (auto simp: list_ex_iff)
qed

lemma segments_Match_innermost:
  "Match c val \<in> set (segments sig s) \<Longrightarrow>
     sig c \<and> \<not> list_ex sig val \<and> CHR ''}'' \<notin> set val \<and> \<not> list_ex is_line_terminator val"
proof (induction sig s rule: segments.induct)
  case (1 sig)
  then show ?case by simp
next
  case (2 sig c' r)
  show ?case
  proof (cases "match_here sig (c' # r)")
    case None
    with 2 show ?thesis by auto
  next
    case (Some p)
    obtain v rest where p: "p = (v, rest)" by (cases p)
    from Some p have m: "match_here sig (c' # r) = Some (v, rest)" by simp
    from match_here_SomeD [OF m] have "sig c'" by auto
    with 2 Some p match_here_group [OF m] show ?thesis by auto
  qed
qed

lemma rest_of_line_id: "\<not> list_ex is_line_terminator r \<Longrightarrow> rest_of_line r = r"
  unfolding rest_of_line_def list_ex_iff by (simp add: takeWhile_eq_all_conv)

lemma segments_single_line:
  "\<not> list_ex is_line_terminator s \<Longrightarrow> length (filter is_match (segments sig s)) \<le> 1"
proof (induction sig s rule: segments.induct)
  case (1 sig)
  then show ?case by simp
next
  case (2 sig c r)
  show ?case
  proof (cases "match_here sig (c # r)")
    case None
    with 2 show ?thesis by simp
  next
    case (Some p)
    obtain v rest where p: "p = (v, rest)" by (cases p)
    from Some p have m: "match_here sig (c # r) = Some (v, rest)" by simp
    from match_here_SomeD [OF m] obtain r' where r: "r = CHR ''{'' # r'"
      and rest: "rest = tl (dropWhile (\<lambda>x. x \<noteq> CHR ''}'') r')"
      and ns: "\<not> list_ex sig (rest_of_line r')" by auto
    from 2(3) r have "\<not> list_ex is_line_terminator r'" by simp
    then have "\<not> list_ex sig r'" using ns by (simp add: rest_of_line_id)
    moreover have "set rest \<subseteq> set r'"
      unfolding rest by (metis list.set_sel(2) set_dropWhileD subsetI tl_Nil)
    ultimately have "\<not> list_ex sig rest" by (auto simp: list_ex_iff)
    then have "segments sig rest = map Lit rest" by (rule segments_no_sig)
    then have "filter is_match (segments sig rest) = []" by (simp add: filter_empty_conv)
    with Some p show ?thesis by simp
  qed
qed

lemma takeWhile_until: "c \<notin> set val \<Longrightarrow> takeWhile (\<lambda>x. x \<noteq> c) (val @ c # post) = val"
  by (induction val) auto

lemma dropWhile_until: "c \<notin> set val \<Longrightarrow> dropWhile (\<lambda>x. x \<noteq> c) (val @ c # post) = c # post"
  by (induction val) auto

lemma match_here_whole:
  assumes "sig c" "\<not> list_ex sig val" "CHR ''}'' \<notin> set val" "\<not> list_ex is_line_terminator val"
    and "\<not> sig CHR ''}''"
  shows "match_here sig (c # CHR ''{'' # val @ ''}'') = Some (val, [])"
proof -
  have lt: "\<not> is_line_terminator CHR ''}''" by (simp add: is_line_terminator_def)
  have rl: "rest_of_line (val @ ''}'') = val @ ''}''"
    using assms(4) lt by (intro rest_of_line_id) (simp add: list_ex_iff)
  show ?thesis
    unfolding match_here_def using assms(1,2,5) rl takeWhile_until [OF assms(3), of "[]"]
      dropWhile_until [OF assms(3), of "[]"]
    by (simp add: list_ex_iff)
qed

lemma segments_whole:
  assumes "sig c" "\<not> list_ex sig val" "CHR ''}'' \<notin> set val" "\<not> list_ex is_line_terminator val"
    and "\<not> sig CHR ''}''"
  shows "segments sig (c # CHR ''{'' # val @ ''}'') = [Match c val]"
  using match_here_whole [OF assms] by simp

lemma match_here_no_close: "CHR ''}'' \<notin> set s \<Longrightarrow> match_here sig s = None"
  by (auto simp: match_here_def rest_of_line_def list_ex_iff split: list.splits dest: set_takeWhileD)

lemma match_here_no_open: "CHR ''{'' \<notin> set s \<Longrightarrow> match_here sig s = None"
  by (auto simp: match_here_def split: list.splits)

lemma segments_no_close: "CHR ''}'' \<notin> set s \<Longrightarrow> segments sig s = map Lit s"
  by (induction s) (simp_all add: match_here_no_close)

lemma segments_no_open: "CHR ''{'' \<notin> set s \<Longrightarrow> segments sig s = map Lit s"
  by (induction s) (simp_all add: match_here_no_open)

lemma has_match_map_Lit: "segments sig s = map Lit s \<Longrightarrow> \<not> has_match sig s"
  by (simp add: has_match_def list_ex_iff)

lemma match_here_sig_later:
  assumes "list_ex sig r" "\<not> list_ex is_line_terminator r"
  shows "match_here sig (x # b # r) = None"
  using assms by (simp add: match_here_def rest_of_line_id)

lemma segments_last_span:
  assumes c: "sig c" "\<not> sig CHR ''{''" "\<not> sig CHR ''}''" "\<not> is_line_terminator c"
    and val: "\<not> list_ex sig val" "CHR ''}'' \<notin> set val"
    and post: "\<not> list_ex sig post"
    and line: "\<not> list_ex is_line_terminator (pre @ val @ post)"
  shows "segments sig (pre @ c # CHR ''{'' # val @ CHR ''}'' # post)
           = map Lit pre @ Match c val # map Lit post"
  using line
proof (induction pre)
  case Nil
  have lt: "\<not> is_line_terminator CHR ''}''" by (simp add: is_line_terminator_def)
  have "rest_of_line (val @ CHR ''}'' # post) = val @ CHR ''}'' # post"
    using Nil lt by (intro rest_of_line_id) (simp add: list_ex_iff)
  then have "match_here sig (c # CHR ''{'' # val @ CHR ''}'' # post) = Some (val, post)"
    unfolding match_here_def using c val post takeWhile_until [OF val(2), of post]
      dropWhile_until [OF val(2), of post]
    by (auto simp: list_ex_iff)
  then show ?case using post by (simp add: segments_no_sig)
next
  case (Cons x pre)
  have "match_here sig (x # pre @ c # CHR ''{'' # val @ CHR ''}'' # post) = None"
  proof (cases pre)
    case Nil
    then show ?thesis using c by (auto simp: match_here_def)
  next
    case (Cons b r)
    have lt: "\<not> is_line_terminator CHR ''{''" "\<not> is_line_terminator CHR ''}''"
      by (simp_all add: is_line_terminator_def)
    show ?thesis unfolding Cons append_Cons
      apply (rule match_here_sig_later)
      using c Cons.prems  Cons lt by (auto simp: list_ex_iff)
  qed
  with Cons show ?case by simp
qed

section \<open>Facts about substitution\<close>

lemma set_trim: "set (trim s) \<subseteq> set s"
  unfolding trim_def by (auto dest!: set_dropWhileD)

lemma set_split_on: "x \<in> set (split_on c s) \<Longrightarrow> set x \<subseteq> set s"
proof (induction s arbitrary: x)
  case Nil
  then show ?case by simp
next
  case (Cons a s)
  show ?case
  proof (cases "a = c")
    case True
    with Cons show ?thesis by auto
  next
    case False
    obtain w ws where ws: "split_on c s = w # ws" by (cases "split_on c s") (cases s, auto split: if_splits list.splits)
    with Cons.prems False have "x = a # w \<or> x \<in> set ws" by auto
    with Cons.IH ws show ?thesis by fastforce
  qed
qed

lemma set_tokens: "t \<in> set (tokens tuple) \<Longrightarrow> set t \<subseteq> set tuple"
  unfolding tokens_def using set_trim set_split_on by fastforce

lemma split_colon_tuple: "split_colon val = Some (n, tuple) \<Longrightarrow> set tuple \<subseteq> set val"
  unfolding split_colon_def
  by (auto split: if_splits dest!: list.set_sel(2) [rotated] set_dropWhileD)

lemma split_last_colon_tuple: "split_last_colon val = Some (n, tuple) \<Longrightarrow> set tuple \<subseteq> set val"
  unfolding split_last_colon_def
  by (auto split: if_splits dest!: set_takeWhileD)

lemma substitute_Str:
  "substitute st (Str s) dv depth =
     (if 10 < Suc depth \<or> \<not> has_match is_sigil s then Inr (Str s)
      else (case replace_with st s (segments is_sigil s) (dv, Undefined, False) of
              Inl e \<Rightarrow> Inl e
            | Inr (out, dv', sv, fin) \<Rightarrow>
                (case substitute st (Str out) dv' (Suc depth) of
                   Inl e \<Rightarrow> Inl e
                 | Inr r \<Rightarrow> Inr (if fin \<and> \<not> is_string sv then sv else r))))"
  by (subst substitute.simps) (simp split: prod.splits sum.splits)

lemma substitute_not_Str: "\<not> is_string t \<Longrightarrow> substitute st t dv depth = Inr t"
  by (cases t) (simp_all add: substitute.simps)

lemma substitute_no_match: "\<not> has_match is_sigil s \<Longrightarrow> substitute st (Str s) dv depth = Inr (Str s)"
  by (simp add: substitute_Str)

lemma substitute_v1_Str:
  "substitute_v1 st (Str s) depth =
     (if 5 < Suc depth \<or> \<not> has_match is_dollar s then Inr (Str s)
      else (case replace_v1 st (segments is_dollar s) of
              Inl e \<Rightarrow> Inl e
            | Inr out \<Rightarrow> substitute_v1 st (Str out) (Suc depth)))"
  by (subst substitute_v1.simps) simp

lemma substitute_v1_no_match:
  "\<not> has_match is_dollar s \<Longrightarrow> substitute_v1 st (Str s) depth = Inr (Str s)"
  by (simp add: substitute_v1_Str)

lemma substitute_whole:
  assumes "is_sigil c" "\<not> list_ex is_sigil val" "CHR ''}'' \<notin> set val"
    "\<not> list_ex is_line_terminator val"
  shows "substitute st (Str (c # CHR ''{'' # val @ ''}'')) dv 0 =
     (case callback st c val dv of
        Inl e \<Rightarrow> Inl e
      | Inr (v, dv') \<Rightarrow>
          (case to_text (host st) v of
             Inl e \<Rightarrow> Inl e
           | Inr t \<Rightarrow>
               (case substitute st (Str t) dv' 1 of
                  Inl e \<Rightarrow> Inl e
                | Inr r \<Rightarrow> Inr (if is_string v then r else v))))"
proof -
  have seg: "segments is_sigil (c # CHR ''{'' # val @ ''}'') = [Match c val]"
    using assms by (intro segments_whole) (simp_all add: is_sigil_def)
  show ?thesis
    by (subst substitute_Str)
      (simp add: seg has_match_def del: segments.simps split: prod.splits sum.splits)
qed

lemma substitute_v1_whole:
  assumes "\<not> list_ex is_dollar val" "CHR ''}'' \<notin> set val" "\<not> list_ex is_line_terminator val"
  shows "substitute_v1 st (Str (CHR ''$'' # CHR ''{'' # val @ ''}'')) 0 =
     (case to_text (host st) (callback_v1 st val) of
        Inl e \<Rightarrow> Inl e
      | Inr t \<Rightarrow> substitute_v1 st (Str t) 1)"
proof -
  have seg: "segments is_dollar (CHR ''$'' # CHR ''{'' # val @ ''}'') = [Match CHR ''$'' val]"
    using assms by (intro segments_whole) (simp_all add: is_dollar_def)
  show ?thesis
    by (subst substitute_v1_Str)
      (simp add: seg has_match_def del: segments.simps split: prod.splits sum.splits)
qed


lemma replace_with_literals: "replace_with st t (map Lit s) vars = Inr (s, vars)"
  by (induction s) simp_all

lemma replace_with_prefix:
  "replace_with st t (map Lit pre @ segs) vars =
     (case replace_with st t segs vars of
        Inl e \<Rightarrow> Inl e
      | Inr (out, vars') \<Rightarrow> Inr (pre @ out, vars'))"
  by (induction pre) (simp_all split: sum.splits prod.splits)

section \<open>Facts about indices\<close>

lemma foldl_digits:
  "foldl (\<lambda>n c. 10 * n + f c) n s = n * 10 ^ length s + foldl (\<lambda>n c. 10 * n + f c) (0::nat) s"
proof (induction s arbitrary: n)
  case Nil
  then show ?case by simp
next
  case (Cons c s)
  have "foldl (\<lambda>n c. 10 * n + f c) (10 * n + f c) s
          = (10 * n + f c) * 10 ^ length s + foldl (\<lambda>n c. 10 * n + f c) 0 s"
    by (rule Cons.IH)
  moreover have "foldl (\<lambda>n c. 10 * n + f c) (f c) s
          = f c * 10 ^ length s + foldl (\<lambda>n c. 10 * n + f c) 0 s"
    by (rule Cons.IH)
  ultimately show ?case by (simp add: algebra_simps)
qed

lemma digits_value_Nil: "digits_value [] = 0"
  by (simp add: digits_value_def)

lemma digits_value_Cons: "digits_value (c # s) = digit_of c * 10 ^ length s + digits_value s"
  unfolding digits_value_def digit_of_def
  using foldl_digits [of "\<lambda>c. of_char c - 48" "of_char c - 48" s] by simp

lemma digit_of_le: "is_digit c \<Longrightarrow> digit_of c \<le> 9"
  unfolding is_digit_def digit_of_def by arith

lemma digit_of_inj: "is_digit c \<Longrightarrow> is_digit c' \<Longrightarrow> digit_of c = digit_of c' \<Longrightarrow> c = c'"
proof -
  assume "is_digit c" "is_digit c'" "digit_of c = digit_of c'"
  then have "(of_char c :: nat) = of_char c'"
    unfolding is_digit_def digit_of_def by arith
  then show "c = c'" by simp
qed

lemma digit_of_zero: "digit_of CHR ''0'' = 0"
  by (simp add: digit_of_def)

lemma is_digit_zero: "is_digit CHR ''0''"
  by (simp add: is_digit_def)

lemma digits_value_less: "list_all is_digit s \<Longrightarrow> digits_value s < 10 ^ length s"
proof (induction s)
  case Nil
  then show ?case by (simp add: digits_value_Nil)
next
  case (Cons c s)
  define n :: nat where "n = 10 ^ length s"
  from Cons have "digit_of c \<le> 9" by (simp add: digit_of_le)
  then have "digit_of c * n \<le> 9 * n" by simp
  moreover from Cons have "digits_value s < n" by (simp add: n_def)
  ultimately have "digit_of c * n + digits_value s < 10 * n" by linarith
  then show ?case by (simp add: digits_value_Cons n_def)
qed

lemma digits_value_lower:
  assumes "is_digit c" "c \<noteq> CHR ''0''"
  shows "10 ^ length s \<le> digits_value (c # s)"
proof -
  have "digit_of c \<noteq> 0"
    using digit_of_inj [OF assms(1) is_digit_zero] assms(2) by (auto simp: digit_of_zero)
  define n :: nat where "n = 10 ^ length s"
  from \<open>digit_of c \<noteq> 0\<close> have "1 * n \<le> digit_of c * n"
    by (intro mult_right_mono) simp_all
  then have "n \<le> digit_of c * n + digits_value s" by linarith
  then show ?thesis by (simp add: digits_value_Cons n_def)
qed

lemma digits_same_length:
  "length s = length t \<Longrightarrow> list_all is_digit s \<Longrightarrow> list_all is_digit t
     \<Longrightarrow> digits_value s = digits_value t \<Longrightarrow> s = t"
proof (induction s t rule: list_induct2)
  case Nil
  then show ?case by simp
next
  case (Cons c s d t)
  let ?n = "10 ^ length s :: nat"
  have ls: "digits_value s < ?n" and lt: "digits_value t < ?n"
    using Cons digits_value_less [of s] digits_value_less [of t] by simp_all
  have eq: "digit_of c * ?n + digits_value s = digit_of d * ?n + digits_value t"
    using Cons by (simp add: digits_value_Cons)
  have "(digit_of c * ?n + digits_value s) div ?n = digit_of c" using ls by simp
  moreover have "(digit_of d * ?n + digits_value t) div ?n = digit_of d" using lt by simp
  ultimately have dd: "digit_of c = digit_of d" using eq by simp
  with eq have "digits_value s = digits_value t" by simp
  with Cons dd show ?case by (auto dest: digit_of_inj)
qed

lemma is_uint_inj:
  assumes "is_uint s" "is_uint t" "digits_value s = digits_value t"
  shows "s = t"
proof -
  have bounds: "10 ^ (length u - 1) \<le> digits_value u \<or> u = ''0''" if "is_uint u" for u
  proof (cases u)
    case Nil
    with that show ?thesis by (simp add: is_uint_def)
  next
    case (Cons c r)
    with that digits_value_lower [of c r] show ?thesis by (auto simp: is_uint_def)
  qed
  have zero: "digits_value ''0'' = 0" by (simp add: digits_value_Cons digit_of_zero digits_value_Nil)
  have pos: "u = ''0''" if "is_uint u" "digits_value u = 0" for u
    using bounds [OF that(1)] that(2) by auto
  show ?thesis
  proof (cases "digits_value s = 0")
    case True
    with assms pos show ?thesis by metis
  next
    case False
    have ne: "s \<noteq> ''0''" "t \<noteq> ''0''" using False assms(3) zero by auto
    have d: "list_all is_digit s" "list_all is_digit t" "s \<noteq> []" "t \<noteq> []"
      using assms by (simp_all add: is_uint_def)
    have "length s = length t"
    proof (rule ccontr)
      assume n: "length s \<noteq> length t"
      have up: "digits_value s < 10 ^ length s" "digits_value t < 10 ^ length t"
        using d digits_value_less by blast+
      have lo: "10 ^ (length s - 1) \<le> digits_value s" "10 ^ (length t - 1) \<le> digits_value t"
        using bounds [OF assms(1)] bounds [OF assms(2)] ne by auto
      from n consider "length s \<le> length t - 1" | "length t \<le> length s - 1" by linarith
      then show False
      proof cases
        case 1
        then have "(10::nat) ^ length s \<le> 10 ^ (length t - 1)" by (intro power_increasing) simp_all
        with up lo assms(3) show False by linarith
      next
        case 2
        then have "(10::nat) ^ length t \<le> 10 ^ (length s - 1)" by (intro power_increasing) simp_all
        with up lo assms(3) show False by linarith
      qed
    qed
    with d assms(3) show ?thesis by (intro digits_same_length)
  qed
qed

lemma array_index_inj: "array_index k = Some i \<Longrightarrow> array_index k' = Some i \<Longrightarrow> k = k'"
  by (auto simp: array_index_def split: if_splits intro: is_uint_inj)

lemma array_index_not_length: "array_index ''length'' = None"
  by (simp add: array_index_def is_uint_def is_digit_def)

section \<open>Facts about assignment\<close>

lemma upd_idem: "upd (upd ps k x) k x = upd ps k x"
  by (induction ps) auto

lemma map_of_upd_same: "map_of (upd ps k x) k = Some x"
  by (induction ps) auto

lemma map_of_upd_other: "k \<noteq> k' \<Longrightarrow> map_of (upd ps k' x) k = map_of ps k"
  by (induction ps) auto

lemma upd_fix_other: "upd ps k y = ps \<Longrightarrow> k \<noteq> k' \<Longrightarrow> upd (upd ps k' x) k y = upd ps k' x"
  by (induction ps) (auto split: if_splits)

lemma is_object_assign: "is_object (assign d k x) = is_object d"
  by (cases d) (auto split: option.splits)

lemma is_array_assign: "is_array (assign d k x) = is_array d"
  by (cases d) (auto split: option.splits)

lemma is_container_assign: "is_container (assign d k x) = is_container d"
  by (cases d) (auto split: option.splits)

lemma is_container_object: "is_container d \<Longrightarrow> is_object d"
  by (cases d) simp_all

lemma assign_not_container: "\<not> is_container d \<Longrightarrow> assign d k x = d"
  by (cases d) simp_all

lemma extend_nth:
  "length xs \<le> i \<Longrightarrow> (xs @ replicate (i - length xs) Undefined @ [x]) ! i = x"
  by (simp add: nth_append)

lemma assign_idem: "assign (assign d k x) k x = assign d k x"
proof (cases d)
  case (Arr xs ps)
  show ?thesis
  proof (cases "array_index k")
    case None
    with Arr show ?thesis by (simp add: upd_idem)
  next
    case (Some i)
    then have nl: "k \<noteq> ''length''" using array_index_not_length by auto
    show ?thesis
    proof (cases "i < length xs")
      case True
      with Arr Some nl show ?thesis by simp
    next
      case False
      then have "(xs @ replicate (i - length xs) Undefined @ [x])[i := x]
                   = xs @ replicate (i - length xs) Undefined @ [x]"
        using extend_nth [of xs i x] by (metis list_update_id not_le_imp_less order.asym le_less_linear)
      with Arr Some nl False show ?thesis by simp
    qed
  qed
qed (simp_all add: upd_idem)

lemma get_prop_assign_same:
  assumes "is_container d" "\<not> (is_array d \<and> k = ''length'')"
  shows "get_prop h (assign d k x) k = x"
proof (cases d)
  case (Arr xs ps)
  with assms have nl: "k \<noteq> ''length''" by simp
  show ?thesis
  proof (cases "array_index k")
    case None
    with Arr nl show ?thesis by (simp add: map_of_upd_same)
  next
    case (Some i)
    with Arr nl show ?thesis by (simp add: extend_nth)
  qed
next
  case (Obj ps)
  then show ?thesis by (simp add: map_of_upd_same)
qed (use assms in simp_all)

lemma assign_fix_get:
  assumes "is_container d" "\<not> (is_array d \<and> k = ''length'')" "assign d k x = d"
  shows "get_prop h d k = x"
  using get_prop_assign_same [OF assms(1,2), of h x] assms(3) by simp

text \<open>
  An assignment to another key extends an array over holes, which the prototype no longer
  shows through; for a key under which no object is inherited this leaves the reading of
  the key, as far as \<open>baseSet\<close> looks at it, as it was.
\<close>

lemma get_prop_assign_other:
  assumes "k \<noteq> k'" "\<not> (is_array d \<and> k = ''length'')" "\<not> is_object (inherited h Array_object k)"
  shows "get_prop h (assign d k' x) k = get_prop h d k
         \<or> (\<not> is_object (get_prop h (assign d k' x) k) \<and> \<not> is_object (get_prop h d k))"
proof (cases d)
  case (Arr xs ps)
  with assms have nl: "k \<noteq> ''length''" by simp
  show ?thesis
  proof (cases "k' = ''length''")
    case True
    with Arr show ?thesis by simp
  next
    case kl: False
    show ?thesis
    proof (cases "array_index k'")
      case None
      with Arr nl kl assms(1) show ?thesis
        by (simp add: map_of_upd_other split: option.splits)
    next
      case (Some j)
      show ?thesis
      proof (cases "array_index k")
        case None
        with Arr nl kl Some show ?thesis by simp
      next
        case i: (Some i)
        have ij: "i \<noteq> j" using array_index_inj [OF i] Some assms(1) by auto
        show ?thesis
          using Arr nl kl Some i ij assms(3) by (auto simp: nth_append nth_Cons')
      qed
    qed
  qed
next
  case (Obj ps)
  with assms(1) show ?thesis by (simp add: map_of_upd_other)
qed simp_all

lemma assign_fix_other:
  assumes "assign d k y = d" "k \<noteq> k'"
  shows "assign (assign d k' x) k y = assign d k' x"
proof (cases d)
  case (Arr xs ps)
  show ?thesis
  proof (cases "k = ''length''")
    case True
    then show ?thesis using Arr by (simp split: option.splits)
  next
    case nl: False
    show ?thesis
    proof (cases "array_index k")
      case None
      with Arr nl assms show ?thesis
        by (auto simp: upd_fix_other split: option.splits)
    next
      case i: (Some i)
      from assms(1) Arr nl i have lt: "i < length xs" and xi: "xs[i := y] = xs"
        by (auto split: if_splits)
      then have nth: "xs ! i = y" by (metis nth_list_update_eq)
      show ?thesis
      proof (cases "k' = ''length''")
        case True
        with Arr nl i lt xi show ?thesis by simp
      next
        case kl: False
        show ?thesis
        proof (cases "array_index k'")
          case None
          with Arr nl kl i lt xi show ?thesis by simp
        next
          case (Some j)
          have ij: "i \<noteq> j" using array_index_inj [OF i] Some assms(2) by auto
          show ?thesis
          proof (cases "j < length xs")
            case True
            with Arr nl kl i Some lt nth ij show ?thesis
              by (simp add: list_update_swap [of j i] xi)
          next
            case False
            have "(xs @ replicate (j - length xs) Undefined @ [x])[i := y]
                    = xs[i := y] @ replicate (j - length xs) Undefined @ [x]"
              using lt by (simp add: list_update_append)
            with Arr nl kl i Some lt xi False show ?thesis by simp
          qed
        qed
      qed
    qed
  qed
next
  case (Obj ps)
  with assms show ?thesis by (simp add: upd_fix_other)
qed simp_all

section \<open>Facts about lodash set\<close>

lemma is_object_base_set: "is_object (base_set h d p v) = is_object d"
  by (induction h d p v rule: base_set.induct) (simp_all add: is_object_assign)

lemma is_container_base_set: "is_container (base_set h d p v) = is_container d"
  by (induction h d p v rule: base_set.induct) (simp_all add: is_container_assign)

lemma is_array_base_set: "is_array (base_set h d p v) = is_array d"
  by (induction h d p v rule: base_set.induct) (simp_all add: is_array_assign)

lemma base_set_not_container: "\<not> is_container d \<Longrightarrow> base_set h d p v = d"
  by (induction h d p v rule: base_set.induct) (simp_all add: assign_not_container)

lemma is_object_child: "is_object (child h d k k')"
  by (simp add: child_def)

lemma base_set_step:
  "is_object d \<Longrightarrow> base_set h d (k # k' # ks) v = assign d k (base_set h (child h d k k') (k' # ks) v)"
  by (simp add: child_def)

lemma assign_length: "is_array d \<Longrightarrow> assign d ''length'' x = d"
  by (cases d) simp_all

lemma base_set_length: "is_array d \<Longrightarrow> base_set h d (''length'' # ks) v = d"
  by (cases ks) (simp_all add: assign_length)

lemma child_assign_other:
  assumes "k \<noteq> k'" "\<not> (is_array d \<and> k = ''length'')" "\<not> is_object (inherited h Array_object k)"
  shows "child h (assign d k' x) k k'' = child h d k k''"
  using get_prop_assign_other [OF assms, of x] by (auto simp: child_def)

lemma base_set_idem: "base_set h (base_set h d p v) p v = base_set h d p v"
proof (induction h d p v rule: base_set.induct)
  case (1 h object v)
  then show ?case by simp
next
  case (2 h object k v)
  then show ?case by (simp add: is_object_assign assign_idem)
next
  case (3 h object k k' ks v)
  show ?case
  proof (cases "is_container object")
    case False
    show ?thesis by (simp only: base_set_not_container [OF False])
  next
    case cont: True
    then have obj: "is_object object" by (rule is_container_object)
    let ?X = "base_set h (child h object k k') (k' # ks) v"
    have step: "base_set h object (k # k' # ks) v = assign object k ?X"
      using obj by (rule base_set_step)
    have X: "is_object ?X" by (simp add: is_object_base_set is_object_child)
    have IH: "base_set h ?X (k' # ks) v = ?X"
      using 3 [OF obj] by (simp add: child_def)
    show ?thesis
    proof (cases "is_array object \<and> k = ''length''")
      case True
      then show ?thesis using step by (simp add: assign_length)
    next
      case False
      have obj': "is_object (assign object k ?X)" using obj by (simp add: is_object_assign)
      have "get_prop h (assign object k ?X) k = ?X"
        using cont False by (rule get_prop_assign_same)
      then have "child h (assign object k ?X) k k' = ?X" using X by (simp add: child_def)
      then have "base_set h (assign object k ?X) (k # k' # ks) v = assign (assign object k ?X) k ?X"
        using IH base_set_step [OF obj', of h k k' ks v] by simp
      then show ?thesis unfolding step by (simp add: assign_idem)
    qed
  qed
qed

lemma base_set_preserved:
  "independent p q \<Longrightarrow> base_set h d p v = d
     \<Longrightarrow> \<forall>k\<in>set p. \<not> is_object (inherited h Array_object k)
     \<Longrightarrow> base_set h (base_set h d q w) p v = base_set h d q w"
proof (induction p q arbitrary: d rule: independent.induct)
  case (1 q)
  then show ?case by simp
next
  case (2 p)
  then show ?case by simp
next
  case (3 a p b q)
  have inh_a: "\<not> is_object (inherited h Array_object a)" using 3(4) by simp
  have inh_p: "\<forall>k\<in>set p. \<not> is_object (inherited h Array_object k)" using 3(4) by simp
  show ?case
  proof (cases "is_container d")
    case False
    show ?thesis by (simp only: base_set_not_container [OF False])
  next
    case cont: True
    then have obj: "is_object d" by (rule is_container_object)
    show ?thesis
    proof (cases "is_array d \<and> a = ''length''")
      case True
      then have "is_array (base_set h d (b # q) w)"
        by (simp add: is_array_base_set)
      with True show ?thesis by (simp add: base_set_length)
    next
      case nl: False
      obtain Y where Y: "base_set h d (b # q) w = assign d b Y"
        using obj by (cases q) (auto simp: child_def)
      have obj': "is_object (assign d b Y)" using obj by (simp add: is_object_assign)
      have nl': "\<not> (is_array (assign d b Y) \<and> a = ''length'')" using nl by (simp add: is_array_assign)
      show ?thesis
      proof (cases "a = b")
        case ne: False
        show ?thesis
        proof (cases p)
          case Nil
          with 3(3) obj have "assign d a v = d" by simp
          then have "assign (assign d b Y) a v = assign d b Y" using ne by (rule assign_fix_other)
          with Nil obj' show ?thesis unfolding Y by simp
        next
          case (Cons k' ks)
          let ?X = "base_set h (child h d a k') (k' # ks) v"
          from 3(3) Cons obj have fx: "assign d a ?X = d" by (simp add: child_def)
          have "child h (assign d b Y) a k' = child h d a k'"
            using ne nl inh_a by (rule child_assign_other)
          then have "base_set h (assign d b Y) (a # k' # ks) v = assign (assign d b Y) a ?X"
            using base_set_step [OF obj', of h a k' ks v] by simp
          also have "\<dots> = assign d b Y" using fx ne by (rule assign_fix_other)
          finally show ?thesis unfolding Y Cons .
        qed
      next
        case eq: True
        with 3(2) have ind: "independent p q" by simp
        then obtain k' ks l' ls where p: "p = k' # ks" and q: "q = l' # ls"
          by (cases p; cases q) auto
        define X where "X = base_set h (child h d a k') (k' # ks) v"
        from 3(3) p obj have fx: "assign d a X = d" by (simp add: child_def X_def)
        have gx: "get_prop h d a = X" using cont nl fx by (rule assign_fix_get)
        have Xo: "is_object X" by (simp add: X_def is_object_base_set is_object_child)
        have ch: "child h d a k' = X" "child h d a l' = X"
          unfolding child_def gx using Xo by simp_all
        have fixX: "base_set h X p v = X" using ch(1) p X_def by simp
        define Y where "Y = base_set h X q w"
        have dq: "base_set h d (b # q) w = assign d a Y"
          using base_set_step [OF obj, of h a l' ls w] ch(2) eq q Y_def by simp
        have objq: "is_object (assign d a Y)" using obj by (simp add: is_object_assign)
        have gy: "get_prop h (assign d a Y) a = Y" using cont nl by (rule get_prop_assign_same)
        have Yo: "is_object Y" using Xo by (simp add: Y_def is_object_base_set)
        have "child h (assign d a Y) a k' = Y" unfolding child_def gy using Yo by simp
        then have "base_set h (assign d a Y) (a # k' # ks) v
                     = assign (assign d a Y) a (base_set h Y p v)"
          using base_set_step [OF objq, of h a k' ks v] p by simp
        also have "base_set h Y p v = Y" unfolding Y_def using 3(1) [OF ind fixX inh_p] .
        finally show ?thesis unfolding dq p by (simp add: assign_idem)
      qed
    qed
  qed
qed

lemma set_all_preserved:
  "list_all (independent p) (map fst ws) \<Longrightarrow> base_set h d p v = d
     \<Longrightarrow> \<forall>k\<in>set p. \<not> is_object (inherited h Array_object k)
     \<Longrightarrow> base_set h (set_all h ws d) p v = set_all h ws d"
  unfolding set_all_def
  by (induction ws arbitrary: d) (simp_all add: base_set_preserved)

lemma set_all_fixes:
  "pairwise_independent (map fst ws) \<Longrightarrow> w \<in> set ws
     \<Longrightarrow> \<forall>w\<in>set ws. \<forall>k\<in>set (fst w). \<not> is_object (inherited h Array_object k)
     \<Longrightarrow> base_set h (set_all h ws d) (fst w) (snd w) = set_all h ws d"
proof (induction ws arbitrary: d)
  case Nil
  then show ?case by simp
next
  case (Cons x ws)
  have unfold: "set_all h (x # ws) d = set_all h ws (base_set h d (fst x) (snd x))"
    by (simp add: set_all_def)
  show ?case
  proof (cases "w = x")
    case True
    have "base_set h (set_all h ws (base_set h d (fst x) (snd x))) (fst x) (snd x)
            = set_all h ws (base_set h d (fst x) (snd x))"
      using Cons.prems(1,3) by (intro set_all_preserved) (simp_all add: base_set_idem)
    with True unfold show ?thesis by simp
  next
    case False
    with Cons.prems have "w \<in> set ws" "pairwise_independent (map fst ws)"
      "\<forall>w\<in>set ws. \<forall>k\<in>set (fst w). \<not> is_object (inherited h Array_object k)" by simp_all
    with Cons.IH unfold show ?thesis by simp
  qed
qed

lemma set_all_fixed:
  "(\<And>w. w \<in> set ws \<Longrightarrow> base_set h d (fst w) (snd w) = d) \<Longrightarrow> set_all h ws d = d"
  unfolding set_all_def by (induction ws) simp_all

lemma set_all_twice:
  assumes "pairwise_independent (map fst ws)"
    and "\<forall>w\<in>set ws. \<forall>k\<in>set (fst w). \<not> is_object (inherited h Array_object k)"
  shows "set_all h ws (set_all h ws d) = set_all h ws d"
  by (rule set_all_fixed) (rule set_all_fixes [OF assms(1) _ assms(2)])

section \<open>Facts about resolution\<close>

lemma dictionary_view_data: "dictionary_view (st\<lparr>data := d\<rparr>) = dictionary_view st"
  by (simp add: dictionary_view_def)

lemma dictionary_view_idem:
  "dictionary_view (st\<lparr>dictionary := dictionary_view st\<rparr>) = dictionary_view st"
  by (simp add: dictionary_view_def assign_idem)

text \<open>
  What a callback reads of the store: the host and the dictionary, and for a function-form
  placeholder the resolved tree and the functions.
\<close>

lemma callback_cong:
  assumes "host st' = host st" "dictionary_view st' = dictionary_view st"
    and "c = CHR ''@'' \<longrightarrow> data st' = data st \<and> function_table st' = function_table st"
  shows "callback st' c val dv = callback st c val dv"
proof -
  have ds: "dict_ns st' = dict_ns st"
    using assms(1,2) by (simp add: dict_ns_def fun_eq_iff)
  show ?thesis
  proof (cases "c = CHR ''@''")
    case True
    with assms have "get_str st' = get_str st" "call_member st' = call_member st"
      by (simp_all add: get_str_def call_member_def fun_eq_iff split: jsval.splits)
    with True show ?thesis by (simp add: callback_def Let_def split: prod.splits)
  next
    case False
    then show ?thesis by (simp add: callback_def ds assms(1) Let_def split: prod.splits)
  qed
qed

lemma replace_with_cong:
  assumes "host st' = host st" "dictionary_view st' = dictionary_view st"
    and "\<not> list_all no_call segs \<longrightarrow> data st' = data st \<and> function_table st' = function_table st"
  shows "replace_with st' t segs vars = replace_with st t segs vars"
  using assms(3)
proof (induction segs arbitrary: vars)
  case Nil
  then show ?case by simp
next
  case (Cons seg segs)
  obtain dv sv fin where vars: "vars = (dv, sv, fin)" by (cases vars)
  show ?case
  proof (cases seg)
    case (Lit c)
    with Cons show ?thesis by simp
  next
    case (Match c val)
    have cb: "callback st' c val dv = callback st c val dv"
      using Cons.prems Match by (intro callback_cong assms(1,2)) auto
    have rest: "replace_with st' t segs vars' = replace_with st t segs vars'" for vars'
      using Cons.prems Match by (intro Cons.IH) auto
    show ?thesis unfolding Match vars
      by (simp add: cb rest assms(1) split: sum.splits prod.splits)
  qed
qed

lemma value_form_only_Str:
  "value_form_only st (Str s) dv depth =
     (if 10 < Suc depth \<or> \<not> has_match is_sigil s then True
      else if \<not> list_all no_call (segments is_sigil s) then False
      else (case replace_with st s (segments is_sigil s) (dv, Undefined, False) of
              Inl e \<Rightarrow> True
            | Inr (out, dv', sv, fin) \<Rightarrow> value_form_only st (Str out) dv' (Suc depth)))"
  by (subst value_form_only.simps) (simp split: prod.splits sum.splits)

lemma substitute_cong:
  "host st' = host st \<Longrightarrow> dictionary_view st' = dictionary_view st
     \<Longrightarrow> value_form_only st t dv n \<or> (data st' = data st \<and> function_table st' = function_table st)
     \<Longrightarrow> substitute st' t dv n = substitute st t dv n
         \<and> value_form_only st' t dv n = value_form_only st t dv n"
proof (induction st t dv n rule: substitute.induct)
  case (1 st template defaultValue depth)
  note h = 1(2,3)
  show ?case
  proof (cases template)
    case (Str s)
    show ?thesis
    proof (cases "10 < Suc depth \<or> \<not> has_match is_sigil s")
      case True
      then show ?thesis unfolding Str by (simp add: substitute_Str value_form_only_Str)
    next
      case False
      have rw: "replace_with st' s (segments is_sigil s) (defaultValue, Undefined, False)
                  = replace_with st s (segments is_sigil s) (defaultValue, Undefined, False)"
        using 1(4) False unfolding Str
        by (intro replace_with_cong h) (auto simp: value_form_only_Str split: if_splits)
      show ?thesis
      proof (cases "replace_with st s (segments is_sigil s) (defaultValue, Undefined, False)")
        case (Inl e)
        then show ?thesis
          unfolding Str using False rw by (simp add: substitute_Str value_form_only_Str)
      next
        case (Inr r)
        obtain out dv' sv fin where r: "r = (out, dv', sv, fin)" by (metis prod_cases4)
        have pre: "value_form_only st (Str out) dv' (Suc depth)
                     \<or> (data st' = data st \<and> function_table st' = function_table st)"
          using 1(4) False Inr r unfolding Str by (auto simp: value_form_only_Str split: if_splits)
        have IH: "substitute st' (Str out) dv' (Suc depth) = substitute st (Str out) dv' (Suc depth)
                  \<and> value_form_only st' (Str out) dv' (Suc depth)
                      = value_form_only st (Str out) dv' (Suc depth)"
          using 1(1) [OF Str False Inr r [symmetric] refl refl h pre] .
        show ?thesis
          unfolding Str using False rw Inr r IH
          by (simp add: substitute_Str [of _ s] value_form_only_Str [of _ s])
      qed
    qed
  qed (simp_all add: substitute.simps value_form_only.simps)
qed

lemma substitute_data:
  "value_form_only st t dv n \<Longrightarrow> substitute (st\<lparr>data := d\<rparr>) t dv n = substitute st t dv n"
  using substitute_cong [of "st\<lparr>data := d\<rparr>" st t dv n] by (simp add: dictionary_view_data)

lemma value_form_only_data:
  "value_form_only st t dv n \<Longrightarrow> value_form_only (st\<lparr>data := d\<rparr>) t dv n"
  using substitute_cong [of "st\<lparr>data := d\<rparr>" st t dv n] by (simp add: dictionary_view_data)

lemma substitute_view:
  "substitute (st\<lparr>dictionary := dictionary_view st\<rparr>) t dv n = substitute st t dv n"
  using substitute_cong [of "st\<lparr>dictionary := dictionary_view st\<rparr>" st t dv n]
  by (simp add: dictionary_view_idem)

lemma value_form_only_view:
  "value_form_only (st\<lparr>dictionary := dictionary_view st\<rparr>) t dv n = value_form_only st t dv n"
  using substitute_cong [of "st\<lparr>dictionary := dictionary_view st\<rparr>" st t dv n]
  by (simp add: dictionary_view_idem)

lemma leaf_value_data:
  "value_form_only st (snd e) Undefined 0 \<Longrightarrow> leaf_value (st\<lparr>data := d\<rparr>) e = leaf_value st e"
  by (simp add: leaf_value_def leaf_result_def substitute_data)

lemma set_all_Cons: "set_all h (w # ws) d = set_all h ws (base_set h d (fst w) (snd w))"
  by (simp add: set_all_def)

text \<open>
  A pass over entries that evaluate no function-form placeholder and raise no error is the
  sequence of writes of their values, which do not depend on the resolved tree.
\<close>

lemma run_entries_writes:
  assumes "\<forall>e\<in>set es. value_form_only st (snd e) Undefined 0"
    and "\<forall>e\<in>set es. \<exists>v. substitute st (snd e) Undefined 0 = Inr v"
  shows "run_entries resolve_entry es (st\<lparr>data := d\<rparr>)
           = (None, st\<lparr>data := set_all (host st) (map (leaf_value st) es) d\<rparr>)"
  using assms
proof (induction es arbitrary: d)
  case Nil
  then show ?case by (simp add: set_all_def)
next
  case (Cons e es)
  from Cons.prems obtain v where v: "substitute st (snd e) Undefined 0 = Inr v" by auto
  have vf: "value_form_only st (snd e) Undefined 0" using Cons.prems by simp
  have v': "substitute (st\<lparr>data := d\<rparr>) (snd e) Undefined 0 = Inr v"
    using substitute_data [OF vf] v by simp
  define d' where "d' = base_set (host st) d (fst (leaf_value st e)) (snd (leaf_value st e))"
  have "resolve_entry e (st\<lparr>data := d\<rparr>) = Inr (st\<lparr>data := d'\<rparr>)"
    by (simp add: resolve_entry_def leaf_result_def v' v d'_def leaf_value_def lodash_set_def)
  then have "run_entries resolve_entry (e # es) (st\<lparr>data := d\<rparr>)
               = run_entries resolve_entry es (st\<lparr>data := d'\<rparr>)" by simp
  also have "\<dots> = (None, st\<lparr>data := set_all (host st) (map (leaf_value st) es) d'\<rparr>)"
    using Cons.prems by (intro Cons.IH) simp_all
  finally show ?case by (simp add: set_all_Cons d'_def)
qed

lemma run_entries_no_error:
  assumes "fst (run_entries resolve_entry es (st\<lparr>data := d\<rparr>)) = None"
    and "\<forall>e\<in>set es. value_form_only st (snd e) Undefined 0"
  shows "\<forall>e\<in>set es. \<exists>v. substitute st (snd e) Undefined 0 = Inr v"
  using assms
proof (induction es arbitrary: d)
  case Nil
  then show ?case by simp
next
  case (Cons e es)
  have vf: "value_form_only st (snd e) Undefined 0" using Cons.prems by simp
  have same: "substitute (st\<lparr>data := d\<rparr>) (snd e) Undefined 0 = substitute st (snd e) Undefined 0"
    by (rule substitute_data [OF vf])
  show ?case
  proof (cases "substitute st (snd e) Undefined 0")
    case (Inl err)
    then have "run_entries resolve_entry (e # es) (st\<lparr>data := d\<rparr>) = (Some err, st\<lparr>data := d\<rparr>)"
      by (simp add: resolve_entry_def leaf_result_def same)
    with Cons.prems(1) show ?thesis by simp
  next
    case (Inr v)
    define d' where "d' = lodash_set (host st) d (fst e) (coerce (snd e) v)"
    have "run_entries resolve_entry (e # es) (st\<lparr>data := d\<rparr>)
            = run_entries resolve_entry es (st\<lparr>data := d'\<rparr>)"
      by (simp add: resolve_entry_def leaf_result_def same Inr d'_def)
    with Cons.prems have "fst (run_entries resolve_entry es (st\<lparr>data := d'\<rparr>)) = None" by simp
    then have "\<forall>e\<in>set es. \<exists>v. substitute st (snd e) Undefined 0 = Inr v"
      using Cons.prems(2) by (intro Cons.IH) simp_all
    with Inr show ?thesis by simp
  qed
qed

lemma merge_dictionary_empty:
  assumes "is_container (dictionary st)"
  shows "merge_dictionary st (Obj []) = st\<lparr>dictionary := dictionary_view st\<rparr>"
proof (cases "self_live st")
  case True
  have "get_prop (host st) (assign (dictionary st) ''self'' (config st)) ''self'' = config st"
    using assms by (intro get_prop_assign_same) simp_all
  with True show ?thesis
    by (simp add: merge_dictionary_def lodash_merge_def dictionary_view_def)
next
  case False
  then show ?thesis
    by (simp add: merge_dictionary_def lodash_merge_def dictionary_view_def)
qed

section \<open>Facts about the store on a heap\<close>

lemmas heap_defs = new_store_h_def alloc_def mutate_def deref_def set_h_def resolve_h_def
  flatten_h_def join_key_def lodash_set_h_def lodash_get_h_def to_path_def assign_h_def
  resolve_entry_h_def coerce_h_def get_h_def colons_to_dots_def is_index_def is_uint_def
  is_digit_def array_index_def digits_value_def

lemma after_set_heap:
  "after_set = Some ((new_store_h (\<lambda>n. None))\<lparr>heap :=
      [HObj [(''app'', Ref 5)], HObj [(''app'', Ref 4)], HObj [(''self'', Ref 1)],
       HObj [(''a'', HStr ''a'')], HObj [(''object'', Ref 3)], HObj [(''object'', Ref 6)],
       HObj [(''a'', HStr ''a'')]]\<rparr>)"
  by (simp add: after_set_def heap_defs substitute_h.simps regex_defs)

lemma after_resolve_heap:
  "after_resolve = Some ((new_store_h (\<lambda>n. None))\<lparr>heap :=
      [HObj [(''app'', Ref 5)], HObj [(''app'', Ref 4)], HObj [(''self'', Ref 1)],
       HObj [(''a'', HStr ''a''), (''b'', HStr ''b'')], HObj [(''object'', Ref 3)],
       HObj [(''object'', Ref 6)], HObj [(''a'', HStr ''a''), (''b'', HStr ''b'')]]\<rparr>)"
  by (simp add: after_resolve_def after_mutation_def after_set_heap heap_defs substitute_h.simps
      regex_defs)

lemma split_on_no_separator: "c \<notin> set s \<Longrightarrow> split_on c s = [s]"
  by (induction s) auto

lemma map_of_upd_h_same: "map_of (upd_h ps k v) k = Some v"
  by (induction ps) auto

text \<open>
  On a key of one segment \<open>set\<close> stores in the definition tree the very value it is
  given, a reference as the reference it is.
\<close>

lemma set_stores_value:
  assumes "c < length h" "h ! c = HObj ps" "CHR ''.'' \<notin> set k"
  shows "get_prop_h (lodash_set_h h (Ref c) k v) (Ref c) k = v"
  using assms
  by (simp add: lodash_set_h_def to_path_def split_on_no_separator assign_h_def map_of_upd_h_same)

section \<open>Facts about flattened paths\<close>

lemma split_on_not_Nil: "split_on c s \<noteq> []"
  by (induction s) (auto split: list.splits)

lemma split_on_append:
  "split_on c (a @ c # b) = split_on c a @ split_on c b"
proof (induction a)
  case Nil
  then show ?case by simp
next
  case (Cons x a)
  obtain w ws where "split_on c a = w # ws"
    using split_on_not_Nil [of c a] by (cases "split_on c a") auto
  with Cons show ?case by simp
qed

lemma to_path_join: "CHR ''.'' \<notin> set k \<Longrightarrow> to_path (key @ CHR ''.'' # k) = to_path key @ [k]"
  by (simp add: to_path_def split_on_append split_on_no_separator)

lemma to_path_single: "CHR ''.'' \<notin> set k \<Longrightarrow> to_path k = [k]"
  by (simp add: to_path_def split_on_no_separator)

lemma digits_value_snoc: "digits_value (s @ [c]) = 10 * digits_value s + digit_of c"
  by (simp add: digits_value_def digit_of_def)

lemma digit_of_digit_char: "digit_of (digit_char n) = n mod 10"
proof -
  have "48 + n mod 10 < (256::nat)" by simp
  then have "of_char (char_of (48 + n mod 10)) = (48 + n mod 10 :: nat)"
    by (simp add: of_char_of)
  then show ?thesis by (simp add: digit_of_def)
qed

lemma digits_value_nat_text: "digits_value (nat_text n) = n"
proof (induction n rule: nat_text.induct)
  case (1 n)
  show ?case
  proof (cases "n < 10")
    case True
    then show ?thesis
      using digits_value_snoc [of "[]" "digit_char n"]
      by (simp add: nat_text.simps [of n] digit_of_digit_char digits_value_Nil del: digit_char.simps)
  next
    case False
    with 1 show ?thesis
      using digits_value_snoc [of "nat_text (n div 10)" "digit_char n"]
      by (simp add: nat_text.simps [of n] digit_of_digit_char del: digit_char.simps)
  qed
qed

lemma nat_text_inj: "nat_text i = nat_text j \<Longrightarrow> i = j"
  by (metis digits_value_nat_text)

lemma is_digit_digit_char: "is_digit (digit_char n)"
proof -
  have "48 + n mod 10 < (256::nat)" by simp
  then have "of_char (char_of (48 + n mod 10)) = (48 + n mod 10 :: nat)"
    by (simp add: of_char_of)
  then show ?thesis by (simp add: is_digit_def)
qed

lemma nat_text_digits: "list_all is_digit (nat_text n)"
proof (induction n rule: nat_text.induct)
  case (1 n)
  then show ?case
    by (cases "n < 10") (simp_all add: nat_text.simps [of n] is_digit_digit_char del: digit_char.simps)
qed

lemma nat_text_no_dot: "CHR ''.'' \<notin> set (nat_text n)"
proof
  assume "CHR ''.'' \<in> set (nat_text n)"
  then have "is_digit CHR ''.''" using nat_text_digits [of n] by (auto simp: list_all_iff)
  then show False by (simp add: is_digit_def)
qed

lemma independent_irrefl: "\<not> independent p p"
  by (induction p) simp_all

lemma independent_diverge: "k \<noteq> k' \<Longrightarrow> independent (pre @ k # r) (pre @ k' # r')"
  by (induction pre) simp_all

lemma pairwise_independent_append:
  "pairwise_independent (xs @ ys) \<longleftrightarrow>
     pairwise_independent xs \<and> pairwise_independent ys
     \<and> (\<forall>x \<in> set xs. \<forall>y \<in> set ys. independent x y)"
  by (induction xs) (auto simp: list_all_iff)

lemma pairwise_independent_distinct: "pairwise_independent ps \<Longrightarrow> distinct ps"
  by (induction ps) (auto simp: list_all_iff independent_irrefl)

lemma upd_fresh: "k \<notin> fst ` set acc \<Longrightarrow> upd acc k v = acc @ [(k, v)]"
  by (induction acc) auto

lemma fold_upd_distinct:
  "distinct (map fst es) \<Longrightarrow> fst ` set es \<inter> fst ` set acc = {}
     \<Longrightarrow> fold (\<lambda>(k, v) acc. upd acc k v) es acc = acc @ es"
proof (induction es arbitrary: acc)
  case Nil
  then show ?case by simp
next
  case (Cons e es)
  obtain k v where e: "e = (k, v)" by (cases e)
  from Cons.prems e have fresh: "k \<notin> fst ` set acc" by auto
  have "fst ` set es \<inter> fst ` set (acc @ [(k, v)]) = {}"
    using Cons.prems e by auto
  with Cons.IH [of "acc @ [(k, v)]"] Cons.prems e fresh show ?case
    by (simp add: upd_fresh)
qed

lemma below_Nil: "below pre ks []"
  by (simp add: below_def)

lemma below_append:
  assumes "below pre ks es" "below pre ks' es'" "ks \<inter> ks' = {}"
  shows "below pre (ks \<union> ks') (es @ es')"
proof -
  have "independent (to_path (fst e)) (to_path (fst e'))" if "e \<in> set es" "e' \<in> set es'" for e e'
  proof -
    from that assms(1,2) obtain k r k' r' where
      "k \<in> ks" "to_path (fst e) = pre @ k # r" "k' \<in> ks'" "to_path (fst e') = pre @ k' # r'"
      unfolding below_def by blast
    with assms(3) show ?thesis by (auto intro: independent_diverge)
  qed
  with assms(1,2) show ?thesis
    unfolding below_def by (auto simp: pairwise_independent_append)
qed

lemma below_deeper:
  assumes "below (pre @ [k]) ks es"
  shows "below pre {k} es"
  using assms unfolding below_def by auto

lemma below_leaf: "to_path key = pre @ [k] \<Longrightarrow> below pre {k} [(key, v)]"
  by (simp add: below_def)

lemma flatten_below:
  "\<forall>pre k. to_path key = pre @ [k] \<longrightarrow> plain_tree v \<longrightarrow> below pre {k} (flatten_val key v)"
  "\<forall>path. to_path key = path \<longrightarrow> distinct (map fst ps)
      \<longrightarrow> list_all (\<lambda>p. CHR ''.'' \<notin> set (fst p) \<and> plain_tree (snd p)) ps
      \<longrightarrow> below path (fst ` set ps) (flatten_props key ps)"
  "\<forall>path. to_path key = path \<longrightarrow> list_all plain_tree xs
      \<longrightarrow> below path (nat_text ` {i ..< i + length xs}) (flatten_elems key i xs)"
proof (induction key v and key ps and key i xs rule: flatten_val_flatten_props_flatten_elems.induct)
  case (1 key p ps)
  show ?case
  proof (intro allI impI)
    fix pre k
    assume k: "to_path key = pre @ [k]" and pl: "plain_tree (Obj (p # ps))"
    from pl 1 k have "below (pre @ [k]) (fst ` set (p # ps)) (flatten_props key (p # ps))"
      by simp
    then show "below pre {k} (flatten_val key (Obj (p # ps)))"
      by (simp add: below_deeper)
  qed
next
  case (2 key x xs ps)
  show ?case
  proof (intro allI impI)
    fix pre k
    assume k: "to_path key = pre @ [k]" and pl: "plain_tree (Arr (x # xs) ps)"
    then have ps: "ps = []" by simp
    from pl 2(1) k have
      "below (pre @ [k]) (nat_text ` {0 ..< 0 + length (x # xs)}) (flatten_elems key 0 (x # xs))"
      by simp
    then show "below pre {k} (flatten_val key (Arr (x # xs) ps))"
      using ps by (simp add: below_deeper)
  qed
next
  case (6 key k v ps)
  show ?case
  proof (intro allI impI)
    fix path
    assume path: "to_path key = path" and d: "distinct (map fst ((k, v) # ps))"
      and pl: "list_all (\<lambda>p. CHR ''.'' \<notin> set (fst p) \<and> plain_tree (snd p)) ((k, v) # ps)"
    from pl have nd: "CHR ''.'' \<notin> set k" and pv: "plain_tree v" by simp_all
    have "to_path (key @ ''.'' @ k) = path @ [k]" using nd path by (simp add: to_path_join)
    with 6(1) pv have a: "below path {k} (flatten_val (key @ ''.'' @ k) v)" by simp
    from 6(2) path d pl have b: "below path (fst ` set ps) (flatten_props key ps)" by simp
    from d have "{k} \<inter> fst ` set ps = {}" by auto
    from below_append [OF a b this] show "below path (fst ` set ((k, v) # ps)) (flatten_props key ((k, v) # ps))"
      by simp
  qed
next
  case (8 key i x xs)
  show ?case
  proof (intro allI impI)
    fix path
    assume path: "to_path key = path" and pl: "list_all plain_tree (x # xs)"
    have "to_path (key @ ''.'' @ nat_text i) = path @ [nat_text i]"
      using path by (simp add: to_path_join nat_text_no_dot)
    with 8(1) pl have a: "below path {nat_text i} (flatten_val (key @ ''.'' @ nat_text i) x)" by simp
    from 8(2) path pl have
      b: "below path (nat_text ` {Suc i ..< Suc i + length xs}) (flatten_elems key (Suc i) xs)" by simp
    have "{nat_text i} \<inter> nat_text ` {Suc i ..< Suc i + length xs} = {}"
      by (auto dest: nat_text_inj)
    from below_append [OF a b this]
    have "below path ({nat_text i} \<union> nat_text ` {Suc i ..< Suc i + length xs})
            (flatten_elems key i (x # xs))" by simp
    moreover have "{i ..< i + length (x # xs)} = insert i {Suc i ..< Suc i + length xs}"
      by auto
    then have "{nat_text i} \<union> nat_text ` {Suc i ..< Suc i + length xs}
                     = nat_text ` {i ..< i + length (x # xs)}"
      by (simp only: image_insert insert_is_Un [symmetric])
    ultimately show "below path (nat_text ` {i ..< i + length (x # xs)}) (flatten_elems key i (x # xs))"
      by simp
  qed
qed (simp_all add: below_leaf below_Nil)

lemma flatten_top_below:
  "distinct (map fst ps) \<Longrightarrow> list_all (\<lambda>p. CHR ''.'' \<notin> set (fst p) \<and> plain_tree (snd p)) ps
     \<Longrightarrow> below [] (fst ` set ps) (flatten_top ps)"
proof (induction ps)
  case Nil
  then show ?case by (simp add: below_Nil)
next
  case (Cons p ps)
  obtain k v where p: "p = (k, v)" by (cases p)
  from Cons.prems p have nd: "CHR ''.'' \<notin> set k" and pv: "plain_tree v" by simp_all
  have "to_path k = [] @ [k]" using nd by (simp add: to_path_single)
  with flatten_below(1) [of k v] pv have a: "below [] {k} (flatten_val k v)" by blast
  from Cons have b: "below [] (fst ` set ps) (flatten_top ps)" by simp
  from Cons.prems p have "{k} \<inter> fst ` set ps = {}" by auto
  from below_append [OF a b this] p show ?case by simp
qed

text \<open>In a plain tree no flattened path is equal to or a prefix of another.\<close>

lemma plain_tree_paths:
  assumes "plain_tree tree"
  shows "pairwise_independent (map (to_path \<circ> fst) (flatten tree))"
proof (cases tree)
  case (Obj ps)
  with assms have "below [] (fst ` set ps) (flatten_top ps)"
    by (intro flatten_top_below) simp_all
  then have ind: "pairwise_independent (map (to_path \<circ> fst) (flatten_top ps))"
    by (simp add: below_def)
  then have "distinct (map (to_path \<circ> fst) (flatten_top ps))"
    by (rule pairwise_independent_distinct)
  then have "distinct (map fst (flatten_top ps))"
    by (metis distinct_map map_map)
  then have "fold (\<lambda>(k, v) acc. upd acc k v) (flatten_top ps) [] = flatten_top ps"
    using fold_upd_distinct [of "flatten_top ps" "[]"] by simp
  with ind Obj show ?thesis by (simp add: flatten_def)
qed (simp_all add: flatten_def)

section \<open>The claims\<close>

text \<open>
  C1, as the code has it: take a value-form placeholder
  \<open>${namespace:keypath, t1, t2, ...}\<close> whose keypath, in dot notation, finds nothing in
  \<open>dictionary[namespace]\<close>, own or inherited.

  In the richer variant the substitution result is the first trimmed remainder token that
  is not the literal string \<open>undefined\<close>, picked left to right; an empty token counts
  and wins.  If there is no such token the result is the default value that the placeholders
  substituted before it in the same leaf have left, \<open>undefined\<close> at the start of a leaf.
  So a leaf that is exactly one such placeholder has that first token, or \<open>undefined\<close>,
  as its substitution.

  In the simpler variant the namespace ends at the last colon, and the result is the first
  trimmed remainder token whatever it is, \<open>undefined\<close> or empty included, and
  \<open>undefined\<close> if there is none; later tokens are never used and no default is carried
  over.  A leaf that is exactly one such placeholder has the text of that result as its
  substitution.
\<close>

theorem default_fallback:
  "(split_colon val = Some (namespace, tuple) \<and> tokens tuple = key # args
      \<and> \<not> list_ex is_line_terminator val \<and> dotted key
      \<and> lookup (host st) (dict_ns st (Some namespace)) key = Undefined
    \<longrightarrow> callback st CHR ''$'' val defaultValue =
          Inr (case find (\<lambda>t. t \<noteq> ''undefined'') args of None \<Rightarrow> defaultValue | Some t \<Rightarrow> Str t,
               case find (\<lambda>t. t \<noteq> ''undefined'') args of None \<Rightarrow> defaultValue | Some t \<Rightarrow> Str t)
        \<and> (\<not> list_ex is_sigil val \<and> CHR ''}'' \<notin> set val \<longrightarrow>
             substitute st (Str (''${'' @ val @ ''}'')) Undefined 0 =
               Inr (case find (\<lambda>t. t \<noteq> ''undefined'') args of None \<Rightarrow> Undefined | Some t \<Rightarrow> Str t)))
   \<and> (split_last_colon val = Some (namespace', tuple') \<and> namespace' \<noteq> [] \<and> tokens tuple' = key' # args'
      \<and> \<not> list_ex is_line_terminator val \<and> dotted key'
      \<and> lookup (host st) (dict_ns st (Some namespace')) key' = Undefined
    \<longrightarrow> callback_v1 st val = (case args' of [] \<Rightarrow> Undefined | t # _ \<Rightarrow> Str t)
        \<and> (\<not> list_ex is_dollar val \<and> CHR ''}'' \<notin> set val \<longrightarrow>
             substitute_v1 st (Str (''${'' @ val @ ''}'')) 0 =
               Inr (Str (case args' of [] \<Rightarrow> ''undefined'' | t # _ \<Rightarrow> t))))"
proof (intro conjI impI)
  assume h: "split_colon val = Some (namespace, tuple) \<and> tokens tuple = key # args
      \<and> \<not> list_ex is_line_terminator val \<and> dotted key
      \<and> lookup (host st) (dict_ns st (Some namespace)) key = Undefined"
  then have parse: "split_colon val = Some (namespace, tuple)" "tokens tuple = key # args"
    and line: "\<not> list_ex is_line_terminator val"
    and absent: "lookup (host st) (dict_ns st (Some namespace)) key = Undefined" by simp_all
  let ?d = "\<lambda>dv. case find (\<lambda>t. t \<noteq> ''undefined'') args of None \<Rightarrow> dv | Some t \<Rightarrow> Str t"
  have cb: "callback st CHR ''$'' val dv = Inr (?d dv, ?d dv)" for dv
    using parse absent by (simp add: callback_def lodash_get_def Let_def split: option.splits)
  show "callback st CHR ''$'' val defaultValue = Inr (?d defaultValue, ?d defaultValue)"
    by (rule cb)
  assume "\<not> list_ex is_sigil val \<and> CHR ''}'' \<notin> set val"
  then have val: "\<not> list_ex is_sigil val" "CHR ''}'' \<notin> set val" "\<not> list_ex is_line_terminator val"
    using line by simp_all
  have whole: "substitute st (Str (''${'' @ val @ ''}'')) Undefined 0 =
     (case to_text (host st) (?d Undefined) of
        Inl e \<Rightarrow> Inl e
      | Inr t \<Rightarrow>
          (case substitute st (Str t) (?d Undefined) 1 of
             Inl e \<Rightarrow> Inl e
           | Inr r \<Rightarrow> Inr (if is_string (?d Undefined) then r else ?d Undefined)))"
    using substitute_whole [OF _ val, of "CHR ''$''" st Undefined] by (simp add: is_sigil_def cb)
  show "substitute st (Str (''${'' @ val @ ''}'')) Undefined 0 = Inr (?d Undefined)"
  proof (cases "find (\<lambda>t. t \<noteq> ''undefined'') args")
    case None
    have "\<not> has_match is_sigil ''undefined''" by (simp add: regex_defs)
    then show ?thesis unfolding whole using None by (simp add: substitute_no_match)
  next
    case (Some t)
    from Some have "t \<in> set args" by (auto simp: find_Some_iff)
    then have "t \<in> set (tokens tuple)" using parse by simp
    then have "set t \<subseteq> set val"
      using set_tokens split_colon_tuple [OF parse(1)] by blast
    then have "\<not> list_ex is_sigil t" using val(1) by (auto simp: list_ex_iff)
    then have "substitute st (Str t) (Str t) 1 = Inr (Str t)"
      by (simp add: substitute_no_match has_match_no_sig)
    then show ?thesis unfolding whole using Some by simp
  qed
next
  assume h: "split_last_colon val = Some (namespace', tuple') \<and> namespace' \<noteq> []
      \<and> tokens tuple' = key' # args'
      \<and> \<not> list_ex is_line_terminator val \<and> dotted key'
      \<and> lookup (host st) (dict_ns st (Some namespace')) key' = Undefined"
  then have parse: "split_last_colon val = Some (namespace', tuple')" "namespace' \<noteq> []"
      "tokens tuple' = key' # args'"
    and line: "\<not> list_ex is_line_terminator val"
    and absent: "lookup (host st) (dict_ns st (Some namespace')) key' = Undefined" by simp_all
  show cb: "callback_v1 st val = (case args' of [] \<Rightarrow> Undefined | t # _ \<Rightarrow> Str t)"
    using parse absent by (simp add: callback_v1_def lodash_get_def Let_def split: list.splits)
  assume "\<not> list_ex is_dollar val \<and> CHR ''}'' \<notin> set val"
  then have val: "\<not> list_ex is_dollar val" "CHR ''}'' \<notin> set val" "\<not> list_ex is_line_terminator val"
    using line by simp_all
  have whole: "substitute_v1 st (Str (''${'' @ val @ ''}'')) 0 =
     (case to_text (host st) (callback_v1 st val) of
        Inl e \<Rightarrow> Inl e
      | Inr t \<Rightarrow> substitute_v1 st (Str t) 1)"
    using substitute_v1_whole [OF val, of st] by simp
  show "substitute_v1 st (Str (''${'' @ val @ ''}'')) 0 =
          Inr (Str (case args' of [] \<Rightarrow> ''undefined'' | t # _ \<Rightarrow> t))"
  proof (cases args')
    case Nil
    have "\<not> has_match is_dollar ''undefined''" by (simp add: regex_defs)
    then show ?thesis unfolding whole cb using Nil by (simp add: substitute_v1_no_match)
  next
    case (Cons t ts)
    then have "t \<in> set (tokens tuple')" using parse by simp
    then have "set t \<subseteq> set val"
      using set_tokens split_last_colon_tuple [OF parse(1)] by blast
    then have "\<not> list_ex is_dollar t" using val(1) by (auto simp: list_ex_iff)
    then have "substitute_v1 st (Str t) 1 = Inr (Str t)"
      by (simp add: substitute_v1_no_match has_match_no_sig)
    then show ?thesis unfolding whole cb using Cons by simp
  qed
qed

text \<open>
  At \<open>'${self:app.nothing, undefined, , b}'\<close> the richer variant skips the token
  \<open>undefined\<close> and takes the empty token, the simpler variant takes \<open>undefined\<close>;
  \<open>${self:app.nothing}\<close> after a default \<open>x\<close> gives \<open>x\<close> in the richer variant.
\<close>

theorem default_fallback_witness:
  "split_colon ''self:app.nothing, undefined, , b'' = Some (''self'', ''app.nothing, undefined, , b'')
   \<and> split_last_colon ''self:app.nothing, undefined, , b''
       = Some (''self'', ''app.nothing, undefined, , b'')
   \<and> tokens ''app.nothing, undefined, , b'' = [''app.nothing'', ''undefined'', [], ''b'']
   \<and> dotted ''app.nothing''
   \<and> lookup (host app_store) (dict_ns app_store (Some ''self'')) ''app.nothing'' = Undefined
   \<and> \<not> list_ex is_sigil ''self:app.nothing, undefined, , b''
   \<and> CHR ''}'' \<notin> set ''self:app.nothing, undefined, , b''
   \<and> \<not> list_ex is_line_terminator ''self:app.nothing, undefined, , b''
   \<and> callback app_store CHR ''$'' ''self:app.nothing, undefined, , b'' (Str ''x'') = Inr (Str [], Str [])
   \<and> callback app_store CHR ''$'' ''self:app.nothing'' (Str ''x'') = Inr (Str ''x'', Str ''x'')
   \<and> substitute app_store (Str ''${self:app.nothing, undefined, , b}'') Undefined 0 = Inr (Str [])
   \<and> callback_v1 app_store ''self:app.nothing, undefined, , b'' = Str ''undefined''
   \<and> substitute_v1 app_store (Str ''${self:app.nothing, undefined, , b}'') 0 = Inr (Str ''undefined'')"
  using default_fallback [of "''self:app.nothing, undefined, , b''" "''self''"
      "''app.nothing, undefined, , b''" "''app.nothing''" "[''undefined'', [], ''b'']" app_store
      "Str ''x''" "''self''" "''app.nothing, undefined, , b''" "''app.nothing''"
      "[''undefined'', [], ''b'']"]
    default_fallback [of "''self:app.nothing''" "''self''" "''app.nothing''" "''app.nothing''" "[]"
      app_store "Str ''x''" "''self''" "''app.nothing''" "''app.nothing''" "[]"]
  by (simp add: regex_defs callback_defs store_defs dotted_def)

text \<open>
  The three examples of the specification, resolved in both variants:
  \<open>${self:app.nothing, "undefined"}\<close> is the string \<open>undefined\<close>,
  \<open>${self:app.nothing, true}\<close> the boolean \<open>true\<close>, \<open>${self:app.nothing}\<close> is
  \<open>undefined\<close>.
\<close>

lemma default_fallback_examples:
  "resolve defaults_store Undefined
     = (None, defaults_store\<lparr>data := Obj [(''u'', Str ''undefined''), (''b'', Bool True), (''n'', Undefined)]\<rparr>)"
  "resolve_v1 defaults_store Undefined
     = (None, defaults_store\<lparr>data := Obj [(''u'', Str ''undefined''), (''b'', Bool True), (''n'', Undefined)]\<rparr>)"
  by (simp_all add: resolve_defs substitute.simps substitute_v1.simps regex_defs callback_defs
      store_defs store_defs2)

text \<open>
  The keypath must find nothing on the prototype chain either: \<open>constructor.name\<close> is
  found in every plain object, and the default \<open>d\<close> is not used.
\<close>

lemma inherited_keypath_found:
  "leaf_result app_store (Str ''${self:constructor.name, d}'') = Inr (Str ''Object'')"
  by (simp add: leaf_result_def coerce_def strip_quotes_def is_quote_def substitute.simps
      regex_defs callback_defs store_defs)

text \<open>
  C1 as stated fails.  In the richer variant, in \<open>'${self:app.nothing, , b}'\<close> the first
  token that is neither empty nor \<open>undefined\<close> is \<open>b\<close>, but the leaf resolves to the
  empty string; and in \<open>'${self:app.${self:app.nothing, x}}'\<close> the outer placeholder has
  no token at all, but the leaf resolves to \<open>x\<close>, the default of the inner one.  In the
  simpler variant \<open>'${self:app.nothing, undefined, b}'\<close> resolves to \<open>undefined\<close>, not
  to \<open>b\<close>.
\<close>

theorem empty_token_counterexample:
  "leaf_result app_store (Str ''${self:app.nothing, , b}'') = Inr (Str [])
   \<and> leaf_result app_store (Str ''${self:app.${self:app.nothing, x}}'') = Inr (Str ''x'')
   \<and> leaf_result_v1 app_store (Str ''${self:app.nothing, undefined, b}'') = Inr Undefined"
  by (simp add: leaf_result_def leaf_result_v1_def coerce_def strip_quotes_def is_quote_def
      substitute.simps substitute_v1.simps regex_defs callback_defs store_defs)

text \<open>
  C2, as the code has it: what \<open>resolve\<close> stores is the substituted value itself when it
  is no string or equals the untouched leaf.  Otherwise the texts \<open>undefined\<close>, \<open>null\<close>,
  \<open>true\<close> and \<open>false\<close> become the typed values; any other text that begins with a single
  or double quote and ends with a single or double quote (the two need not be the same
  character), with no line terminator between them, loses its first and its last character
  and keeps everything between them; every other text is stored as it is.
\<close>

theorem literal_token_coercion:
  "(\<not> is_string v' \<or> v' = v \<longrightarrow> coerce v v' = v')
   \<and> (v \<noteq> Str ''undefined'' \<longrightarrow> coerce v (Str ''undefined'') = Undefined)
   \<and> (v \<noteq> Str ''null'' \<longrightarrow> coerce v (Str ''null'') = Null)
   \<and> (v \<noteq> Str ''true'' \<longrightarrow> coerce v (Str ''true'') = Bool True)
   \<and> (v \<noteq> Str ''false'' \<longrightarrow> coerce v (Str ''false'') = Bool False)
   \<and> (v \<noteq> Str (q1 # mid @ [q2]) \<and> q1 # mid @ [q2] \<notin> set literal_tokens
        \<and> is_quote q1 \<and> is_quote q2 \<and> \<not> list_ex is_line_terminator mid
      \<longrightarrow> coerce v (Str (q1 # mid @ [q2])) = Str mid)
   \<and> (v \<noteq> Str s \<and> s \<notin> set literal_tokens
        \<and> \<not> (2 \<le> length s \<and> is_quote (hd s) \<and> is_quote (last s)
               \<and> \<not> list_ex is_line_terminator (butlast (tl s)))
      \<longrightarrow> coerce v (Str s) = Str s)"
proof -
  have other: "coerce v (Str s) = Str (strip_quotes s)"
    if "v \<noteq> Str s" "s \<notin> set literal_tokens" for s
    using that by (simp add: coerce_def literal_tokens_def)
  have unchanged: "\<not> is_string v' \<or> v' = v \<longrightarrow> coerce v v' = v'"
    by (cases v') (auto simp: coerce_def)
  have tokens:
    "v \<noteq> Str ''undefined'' \<longrightarrow> coerce v (Str ''undefined'') = Undefined"
    "v \<noteq> Str ''null'' \<longrightarrow> coerce v (Str ''null'') = Null"
    "v \<noteq> Str ''true'' \<longrightarrow> coerce v (Str ''true'') = Bool True"
    "v \<noteq> Str ''false'' \<longrightarrow> coerce v (Str ''false'') = Bool False"
    by (simp_all add: coerce_def)
  have quoted: "v \<noteq> Str (q1 # mid @ [q2]) \<and> q1 # mid @ [q2] \<notin> set literal_tokens
        \<and> is_quote q1 \<and> is_quote q2 \<and> \<not> list_ex is_line_terminator mid
      \<longrightarrow> coerce v (Str (q1 # mid @ [q2])) = Str mid"
  proof
    assume h: "v \<noteq> Str (q1 # mid @ [q2]) \<and> q1 # mid @ [q2] \<notin> set literal_tokens
        \<and> is_quote q1 \<and> is_quote q2 \<and> \<not> list_ex is_line_terminator mid"
    then have sq: "strip_quotes (q1 # mid @ [q2]) = mid" by (simp add: strip_quotes_def)
    from h have "v \<noteq> Str (q1 # mid @ [q2])" "q1 # mid @ [q2] \<notin> set literal_tokens"
      by blast+
    from other [OF this] show "coerce v (Str (q1 # mid @ [q2])) = Str mid"
      unfolding sq .
  qed
  have kept: "v \<noteq> Str s \<and> s \<notin> set literal_tokens
        \<and> \<not> (2 \<le> length s \<and> is_quote (hd s) \<and> is_quote (last s)
               \<and> \<not> list_ex is_line_terminator (butlast (tl s)))
      \<longrightarrow> coerce v (Str s) = Str s"
  proof
    assume h: "v \<noteq> Str s \<and> s \<notin> set literal_tokens
        \<and> \<not> (2 \<le> length s \<and> is_quote (hd s) \<and> is_quote (last s)
               \<and> \<not> list_ex is_line_terminator (butlast (tl s)))"
    then have sq: "strip_quotes s = s" unfolding strip_quotes_def by (simp only: if_False)
    from h have "v \<noteq> Str s" "s \<notin> set literal_tokens" by blast+
    from other [OF this] show "coerce v (Str s) = Str s"
      unfolding sq .
  qed
  show ?thesis
    by (intro conjI) (fact unchanged tokens quoted kept)+
qed

text \<open>
  The quoted default \<open>'true'\<close> gives the text \<open>true\<close>, the token \<open>true\<close> the boolean; of
  \<open>''hello''\<close> one layer goes; the apostrophe of \<open>rich's world\<close> stays; an untouched leaf
  \<open>true\<close> stays a string.
\<close>

theorem literal_token_coercion_witness:
  "coerce (Str ''true'') (Str ''true'') = Str ''true''
   \<and> coerce (Str ''${self:a}'') (Num 5) = Num 5
   \<and> coerce (Str ''${self:a}'') (Str ''undefined'') = Undefined
   \<and> coerce (Str ''${self:a}'') (Str ''null'') = Null
   \<and> coerce (Str ''${self:a}'') (Str ''true'') = Bool True
   \<and> coerce (Str ''${self:a}'') (Str ''false'') = Bool False
   \<and> coerce (Str ''${self:a}'') (Str (CHR 0x27 # ''true'' @ [CHR 0x27])) = Str ''true''
   \<and> coerce (Str ''${self:a}'') (Str (CHR 0x27 # (CHR 0x27 # ''hello'' @ [CHR 0x27]) @ [CHR 0x27]))
       = Str (CHR 0x27 # ''hello'' @ [CHR 0x27])
   \<and> coerce (Str ''${self:a}'') (Str (''rich'' @ [CHR 0x27] @ ''s world''))
       = Str (''rich'' @ [CHR 0x27] @ ''s world'')"
  using literal_token_coercion [of "Str ''true''" "Str ''true''" "CHR 0x27" "''true''" "CHR 0x27" "''x''"]
    literal_token_coercion [of "Num 5" "Str ''${self:a}''" "CHR 0x27" "''true''" "CHR 0x27"
      "''rich'' @ [CHR 0x27] @ ''s world''"]
    literal_token_coercion [of "Num 5" "Str ''${self:a}''" "CHR 0x27" "CHR 0x27 # ''hello'' @ [CHR 0x27]"
      "CHR 0x27" "''x''"]
  by (simp add: literal_tokens_def is_quote_def is_line_terminator_def)

text \<open>
  C2 as stated fails: the default of \<open>${self:app.nothing, 'abc"}\<close> opens with a single
  quote and closes with a double quote; the two do not match, and both are stripped.
\<close>

theorem mismatched_quotes_counterexample:
  "leaf_result app_store (Str (''${self:app.nothing, '' @ [CHR 0x27] @ ''abc'' @ [CHR 0x22] @ ''}''))
     = Inr (Str ''abc'')"
  by (simp add: resolve_defs substitute.simps regex_defs callback_defs store_defs)

text \<open>A quoted string with a line break in it keeps its quotes.\<close>

lemma strip_quotes_line_break:
  "strip_quotes (CHR 0x27 # ''a'' @ [CHR 0x0A] @ ''b'' @ [CHR 0x27])
     = CHR 0x27 # ''a'' @ [CHR 0x0A] @ ''b'' @ [CHR 0x27]"
  by (simp add: strip_quotes_def is_quote_def is_line_terminator_def)

text \<open>
  C3, as the code has it.  Take a store as the class initialisers and the constructor's
  merge leave it, its resolved tree still empty, so that the first \<open>resolve()\<close> is the
  constructor's own.  If the resolution of no leaf evaluates a function-form placeholder,
  no flattened path of the definition tree is equal to or a prefix of another, no segment
  of a flattened path holds a bracket, is \<open>length\<close> or is a name under which the host
  lets a value inherit an object or a function, and the first \<open>resolve()\<close> raises no
  error, then a second
  \<open>resolve()\<close> right after it raises no error either and leaves the store, and with it
  the resolved tree, exactly as the first one left it.  The condition on the paths holds
  for every definition tree whose keys are distinct and hold no dot (lemma
  \<open>plain_tree_paths\<close>).
\<close>

theorem resolve_twice:
  assumes fresh: "data st = Obj []"
    and dict: "is_container (dictionary st)"
    and value_form: "list_all (\<lambda>e. value_form_only st (snd e) Undefined 0) (flatten (config st))"
    and paths: "pairwise_independent (map (to_path \<circ> fst) (flatten (config st)))"
    and keys: "list_all (\<lambda>e. list_all (plain_key (host st)) (to_path (fst e))) (flatten (config st))"
    and ok: "fst (resolve st Undefined) = None"
  shows "resolve (snd (resolve st Undefined)) Undefined = (None, snd (resolve st Undefined))"
proof -
  define st1 where "st1 = st\<lparr>dictionary := dictionary_view st\<rparr>"
  define es where "es = flatten (config st)"
  define ws where "ws = map (leaf_value st1) es"
  have guard: "\<not> truthy (get_prop (host st) (Obj []) ''self'')"
    using ok by (auto simp: resolve_def resolve_with_def split: if_splits)
  have m1: "merge_dictionary st (Obj []) = st1"
    using merge_dictionary_empty [OF dict] by (simp add: st1_def)
  have run1: "resolve st Undefined = run_entries resolve_entry es (st1\<lparr>data := data st1\<rparr>)"
    using guard m1 by (simp add: resolve_def resolve_with_def st1_def es_def)
  have vf1: "\<forall>e\<in>set es. value_form_only st1 (snd e) Undefined 0"
    using value_form by (simp add: st1_def es_def value_form_only_view list_all_iff)
  have ne1: "\<forall>e\<in>set es. \<exists>v. substitute st1 (snd e) Undefined 0 = Inr v"
    using ok vf1 unfolding run1 by (rule run_entries_no_error)
  have writes: "run_entries resolve_entry es (st1\<lparr>data := d\<rparr>)
                  = (None, st1\<lparr>data := set_all (host st1) ws d\<rparr>)" for d
    unfolding ws_def using vf1 ne1 by (rule run_entries_writes)
  define st2 where "st2 = st1\<lparr>data := set_all (host st1) ws (data st1)\<rparr>"
  have first: "resolve st Undefined = (None, st2)"
    unfolding run1 st2_def by (rule writes)
  have dict2: "is_container (dictionary st2)"
    using dict by (simp add: st2_def st1_def dictionary_view_def is_container_assign)
  have view2: "st2\<lparr>dictionary := dictionary_view st2\<rparr> = st2"
    using dictionary_view_idem [of st] by (simp add: st2_def st1_def dictionary_view_data)
  have m2: "merge_dictionary st2 (Obj []) = st2"
    using merge_dictionary_empty [OF dict2] view2 by simp
  have guard2: "\<not> truthy (get_prop (host st2) (Obj []) ''self'')"
    using guard by (simp add: st2_def st1_def)
  have ind: "pairwise_independent (map fst ws)"
    using paths by (simp add: ws_def es_def leaf_value_def comp_def)
  have plain: "\<forall>w\<in>set ws. \<forall>k\<in>set (fst w). \<not> is_object (inherited (host st1) Array_object k)"
    using keys by (auto simp: ws_def es_def leaf_value_def plain_key_def st1_def list_all_iff)
  have fixed: "set_all (host st1) ws (data st2) = data st2"
    using set_all_twice [OF ind plain] by (simp add: st2_def)
  have "resolve st2 Undefined = run_entries resolve_entry es (st1\<lparr>data := data st2\<rparr>)"
    using guard2 m2 by (simp add: resolve_def resolve_with_def st2_def st1_def es_def)
  also have "\<dots> = (None, st1\<lparr>data := set_all (host st1) ws (data st2)\<rparr>)" by (rule writes)
  also have "\<dots> = (None, st2)" unfolding fixed by (simp add: st2_def)
  finally show ?thesis unfolding first by simp
qed

text \<open>
  The store of \<open>{ a: 'x', b: 'y', ref: '${self:a}-${self:b}' }\<close> meets the conditions;
  both calls leave \<open>ref = 'x-y'\<close>.
\<close>

theorem resolve_twice_witness:
  "data sibling_store = Obj [] \<and> is_container (dictionary sibling_store)
   \<and> list_all (\<lambda>e. value_form_only sibling_store (snd e) Undefined 0) (flatten (config sibling_store))
   \<and> pairwise_independent (map (to_path \<circ> fst) (flatten (config sibling_store)))
   \<and> list_all (\<lambda>e. list_all (plain_key (host sibling_store)) (to_path (fst e)))
         (flatten (config sibling_store))
   \<and> fst (resolve sibling_store Undefined) = None
   \<and> resolve (snd (resolve sibling_store Undefined)) Undefined
       = (None, snd (resolve sibling_store Undefined))
   \<and> data (snd (resolve sibling_store Undefined))
       = Obj [(''a'', Str ''x''), (''b'', Str ''y''), (''ref'', Str ''x-y'')]"
proof -
  have fl: "flatten (config sibling_store)
              = [(''a'', Str ''x''), (''b'', Str ''y''), (''ref'', Str ''${self:a}-${self:b}'')]"
    by (simp add: store_defs flatten_def)
  have h1: "data sibling_store = Obj []" "is_container (dictionary sibling_store)"
    by (simp_all add: store_defs)
  have h2: "list_all (\<lambda>e. value_form_only sibling_store (snd e) Undefined 0) (flatten (config sibling_store))"
    unfolding fl
    by (simp add: value_form_only.simps regex_defs callback_defs store_defs)
  have h3: "pairwise_independent (map (to_path \<circ> fst) (flatten (config sibling_store)))"
    unfolding fl by (simp add: to_path_def)
  have h4: "list_all (\<lambda>e. list_all (plain_key (host sibling_store)) (to_path (fst e)))
         (flatten (config sibling_store))"
    unfolding fl by (simp add: to_path_def plain_key_def dotted_def store_defs split: receiver.splits)
  have res: "resolve sibling_store Undefined
       = (None, sibling_store\<lparr>data := Obj [(''a'', Str ''x''), (''b'', Str ''y''), (''ref'', Str ''x-y'')]\<rparr>)"
    by (simp add: resolve_defs substitute.simps regex_defs callback_defs store_defs)
  have h5: "fst (resolve sibling_store Undefined) = None" by (simp add: res)
  have d: "data (snd (resolve sibling_store Undefined))
       = Obj [(''a'', Str ''x''), (''b'', Str ''y''), (''ref'', Str ''x-y'')]" by (simp add: res)
  from resolve_twice [OF h1 h2 h3 h4 h5] h1 h2 h3 h4 h5 d show ?thesis by (simp only: simp_thms)
qed

text \<open>
  C3 as stated fails: with \<open>id: x => x\<close> registered and the tree
  \<open>{ a: '@\<close>\<open>{id:b}', b: '@\<close>\<open>{id:c}', c: 'x' }\<close>, the constructor resolves \<open>a\<close> to
  \<open>'b'\<close>; the first \<open>resolve()\<close> after it gives \<open>a = 'c'\<close>, the second one \<open>a = 'x'\<close>.
\<close>

theorem resolve_twice_counterexample:
  "data (snd (resolve (snd (resolve chain_store Undefined)) Undefined))
     = Obj [(''a'', Str ''c''), (''b'', Str ''x''), (''c'', Str ''x'')]
   \<and> data (snd (resolve (snd (resolve (snd (resolve chain_store Undefined)) Undefined)) Undefined))
     = Obj [(''a'', Str ''x''), (''b'', Str ''x''), (''c'', Str ''x'')]
   \<and> data (snd (resolve (snd (resolve (snd (resolve chain_store Undefined)) Undefined)) Undefined))
     \<noteq> data (snd (resolve (snd (resolve chain_store Undefined)) Undefined))"
proof -
  have r1: "resolve chain_store Undefined
       = (None, chain_store\<lparr>data := Obj [(''a'', Str ''b''), (''b'', Str ''c''), (''c'', Str ''x'')]\<rparr>)"
    by (simp add: resolve_defs substitute.simps regex_defs callback_defs store_defs store_defs2)
  have r2: "resolve (chain_store\<lparr>data := Obj [(''a'', Str ''b''), (''b'', Str ''c''), (''c'', Str ''x'')]\<rparr>) Undefined
       = (None, chain_store\<lparr>data := Obj [(''a'', Str ''c''), (''b'', Str ''x''), (''c'', Str ''x'')]\<rparr>)"
    by (simp add: resolve_defs substitute.simps regex_defs callback_defs store_defs store_defs2)
  have r3: "resolve (chain_store\<lparr>data := Obj [(''a'', Str ''c''), (''b'', Str ''x''), (''c'', Str ''x'')]\<rparr>) Undefined
       = (None, chain_store\<lparr>data := Obj [(''a'', Str ''x''), (''b'', Str ''x''), (''c'', Str ''x'')]\<rparr>)"
    by (simp add: resolve_defs substitute.simps regex_defs callback_defs store_defs store_defs2)
  show ?thesis by (simp add: r1 r2 r3)
qed

text \<open>
  The guard at work: \<open>resolve\<close> with a dictionary whose \<open>self\<close> is truthy fails with the
  reserved-key error and leaves the store as it was.
\<close>

lemma resolve_reserved_key:
  "truthy (get_prop (host st) d ''self'') \<Longrightarrow> resolve st d = (Some Reserved_key, st)"
  by (cases d) (auto simp: resolve_def resolve_with_def)

text \<open>
  C4 at the failing input: a dictionary whose \<open>self\<close> is the empty string (or \<open>0\<close>,
  \<open>false\<close>, \<open>null\<close>) contains the reserved key, yet in any store \<open>resolve\<close> passes
  the guard: it merges the dictionary and runs the entries, as for a dictionary without the
  key.  On \<open>{ a: 'x', b: 'y', ref: '${self:a}-${self:b}' }\<close> it raises no error, the
  dictionary loses its binding of \<open>self\<close> to the definition tree, and \<open>ref\<close> resolves
  to \<open>'undefined-undefined'\<close>.
\<close>

theorem resolve_falsy_self:
  "resolve st (Obj [(''self'', Str [])])
     = run_entries resolve_entry (flatten (config st)) (merge_dictionary st (Obj [(''self'', Str [])]))
   \<and> resolve st (Obj [(''self'', Num 0)])
     = run_entries resolve_entry (flatten (config st)) (merge_dictionary st (Obj [(''self'', Num 0)]))
   \<and> resolve st (Obj [(''self'', Bool False)])
     = run_entries resolve_entry (flatten (config st)) (merge_dictionary st (Obj [(''self'', Bool False)]))
   \<and> resolve st (Obj [(''self'', Null)])
     = run_entries resolve_entry (flatten (config st)) (merge_dictionary st (Obj [(''self'', Null)]))
   \<and> fst (resolve sibling_store (Obj [(''self'', Str [])])) = None
   \<and> \<not> self_live (snd (resolve sibling_store (Obj [(''self'', Str [])])))
   \<and> data (snd (resolve sibling_store (Obj [(''self'', Str [])])))
       = Obj [(''a'', Str ''x''), (''b'', Str ''y''), (''ref'', Str ''undefined-undefined'')]
   \<and> data (snd (resolve sibling_store Undefined))
       = Obj [(''a'', Str ''x''), (''b'', Str ''y''), (''ref'', Str ''x-y'')]"
proof -
  have cfg: "config (merge_dictionary st d) = config st" for d
    by (simp add: merge_dictionary_def Let_def)
  have pass: "resolve st (Obj [(''self'', v)])
     = run_entries resolve_entry (flatten (config st)) (merge_dictionary st (Obj [(''self'', v)]))"
    if "\<not> truthy v" for v
    using that by (simp add: resolve_def resolve_with_def cfg Let_def)
  have r1: "resolve sibling_store (Obj [(''self'', Str [])])
     = (None, sibling_store\<lparr>data := Obj [(''a'', Str ''x''), (''b'', Str ''y''),
                                              (''ref'', Str ''undefined-undefined'')],
                            dictionary := Obj [(''self'', Str [])], self_live := False\<rparr>)"
    by (simp add: resolve_defs substitute.simps regex_defs callback_defs store_defs)
  have r2: "resolve sibling_store Undefined
       = (None, sibling_store\<lparr>data := Obj [(''a'', Str ''x''), (''b'', Str ''y''), (''ref'', Str ''x-y'')]\<rparr>)"
    by (simp add: resolve_defs substitute.simps regex_defs callback_defs store_defs)
  show ?thesis
    by (simp add: pass r1 r2)
qed

text \<open>
  C5: substitution terminates on every input: \<open>substitute\<close> and \<open>substitute_v1\<close> are
  total functions, their recursion bounded by the depth counter.  A call that finds the
  counter at the cap (10 in the richer variant, 5 in the simpler one) returns its argument
  as it stands, without an error; a call below the cap on a string with a match makes one
  pass and goes on with the result of the pass at the next depth.  So the leaf
  \<open>'x${self:g}'\<close> of \<open>{ g: 'x${self:g}' }\<close>, which every pass makes longer by one
  \<open>x\<close>, comes back after exactly 10 passes in the richer variant and after exactly 5 in
  the simpler one, as the string that the last pass produced; and the circular reference
  \<open>{ a: '${self:a}' }\<close> comes back as the string it was.
\<close>

theorem substitute_depth_cap:
  "(10 \<le> depth \<longrightarrow> substitute st template defaultValue depth = Inr template)
   \<and> (5 \<le> depth \<longrightarrow> substitute_v1 st template depth = Inr template)
   \<and> (depth < 10 \<and> has_match is_sigil s \<longrightarrow>
        substitute st (Str s) defaultValue depth =
          (case replace_with st s (segments is_sigil s) (defaultValue, Undefined, False) of
             Inl e \<Rightarrow> Inl e
           | Inr (out, defaultValue', substitutedValue, isFinal) \<Rightarrow>
               (case substitute st (Str out) defaultValue' (Suc depth) of
                  Inl e \<Rightarrow> Inl e
                | Inr r \<Rightarrow> Inr (if isFinal \<and> \<not> is_string substitutedValue then substitutedValue else r))))
   \<and> (depth < 5 \<and> has_match is_dollar s \<longrightarrow>
        substitute_v1 st (Str s) depth =
          (case replace_v1 st (segments is_dollar s) of
             Inl e \<Rightarrow> Inl e
           | Inr out \<Rightarrow> substitute_v1 st (Str out) (Suc depth)))
   \<and> substitute growing_store (Str ''x${self:g}'') Undefined 0 = Inr (Str ''xxxxxxxxxxx${self:g}'')
   \<and> substitute_v1 growing_store (Str ''x${self:g}'') 0 = Inr (Str ''xxxxxx${self:g}'')
   \<and> substitute cycle_store (Str ''${self:a}'') Undefined 0 = Inr (Str ''${self:a}'')
   \<and> substitute_v1 cycle_store (Str ''${self:a}'') 0 = Inr (Str ''${self:a}'')"
proof (intro conjI impI)
  assume "10 \<le> depth"
  then show "substitute st template defaultValue depth = Inr template"
    by (cases template) (simp_all add: substitute.simps)
next
  assume "5 \<le> depth"
  then show "substitute_v1 st template depth = Inr template"
    by (cases template) (simp_all add: substitute_v1.simps)
next
  assume "depth < 10 \<and> has_match is_sigil s"
  then show "substitute st (Str s) defaultValue depth =
          (case replace_with st s (segments is_sigil s) (defaultValue, Undefined, False) of
             Inl e \<Rightarrow> Inl e
           | Inr (out, defaultValue', substitutedValue, isFinal) \<Rightarrow>
               (case substitute st (Str out) defaultValue' (Suc depth) of
                  Inl e \<Rightarrow> Inl e
                | Inr r \<Rightarrow> Inr (if isFinal \<and> \<not> is_string substitutedValue then substitutedValue else r)))"
    by (simp add: substitute_Str)
next
  assume "depth < 5 \<and> has_match is_dollar s"
  then show "substitute_v1 st (Str s) depth =
          (case replace_v1 st (segments is_dollar s) of
             Inl e \<Rightarrow> Inl e
           | Inr out \<Rightarrow> substitute_v1 st (Str out) (Suc depth))"
    by (simp add: substitute_v1_Str)
next
  show "substitute growing_store (Str ''x${self:g}'') Undefined 0 = Inr (Str ''xxxxxxxxxxx${self:g}'')"
    by (simp add: substitute.simps regex_defs callback_defs store_defs)
next
  show "substitute_v1 growing_store (Str ''x${self:g}'') 0 = Inr (Str ''xxxxxx${self:g}'')"
    by (simp add: substitute_v1.simps regex_defs callback_defs store_defs)
next
  show "substitute cycle_store (Str ''${self:a}'') Undefined 0 = Inr (Str ''${self:a}'')"
    by (simp add: substitute.simps regex_defs callback_defs store_defs)
next
  show "substitute_v1 cycle_store (Str ''${self:a}'') 0 = Inr (Str ''${self:a}'')"
    by (simp add: substitute_v1.simps regex_defs callback_defs store_defs)
qed

text \<open>
  The growing leaf one call before the cap and at the cap: at depth 9 the richer variant
  makes one more pass, at depth 10 none; at depth 4 the simpler variant makes one more
  pass, at depth 5 none.
\<close>

theorem substitute_depth_cap_witness:
  "(10::nat) \<le> 10 \<and> substitute growing_store (Str ''x${self:g}'') Undefined 10 = Inr (Str ''x${self:g}'')
   \<and> (5::nat) \<le> 5 \<and> substitute_v1 growing_store (Str ''x${self:g}'') 5 = Inr (Str ''x${self:g}'')
   \<and> (9::nat) < 10 \<and> has_match is_sigil ''x${self:g}''
   \<and> substitute growing_store (Str ''x${self:g}'') Undefined 9 = Inr (Str ''xx${self:g}'')
   \<and> (4::nat) < 5 \<and> has_match is_dollar ''x${self:g}''
   \<and> substitute_v1 growing_store (Str ''x${self:g}'') 4 = Inr (Str ''xx${self:g}'')"
proof -
  have m: "has_match is_sigil ''x${self:g}''" "has_match is_dollar ''x${self:g}''"
    by (simp_all add: regex_defs)
  have p: "replace_with growing_store ''x${self:g}'' (segments is_sigil ''x${self:g}'')
             (Undefined, Undefined, False) = Inr (''xx${self:g}'', Undefined, Str ''x${self:g}'', False)"
    by (simp add: regex_defs callback_defs store_defs)
  have p1: "replace_v1 growing_store (segments is_dollar ''x${self:g}'') = Inr ''xx${self:g}''"
    by (simp add: regex_defs callback_defs store_defs)
  from substitute_depth_cap [of 10 growing_store "Str ''x${self:g}''" Undefined "''x${self:g}''"]
    substitute_depth_cap [of 10 growing_store "Str ''xx${self:g}''" Undefined "''x${self:g}''"]
    substitute_depth_cap [of 9 growing_store "Str ''x${self:g}''" Undefined "''x${self:g}''"]
    substitute_depth_cap [of 5 growing_store "Str ''x${self:g}''" Undefined "''x${self:g}''"]
    substitute_depth_cap [of 5 growing_store "Str ''xx${self:g}''" Undefined "''x${self:g}''"]
    substitute_depth_cap [of 4 growing_store "Str ''x${self:g}''" Undefined "''x${self:g}''"]
  show ?thesis by (simp add: m p p1 del: segments.simps)
qed

text \<open>
  C6, as the code has it: in a string without line terminators a pass finds at most one
  span, and it substitutes the last span that opens with a sigil and a brace (no sigil
  follows its brace).  That span holds no nested placeholder.  The output of the pass is
  the input with that one span replaced by the text of its substitution result: all text
  before it, sibling placeholders included, and all text after it is copied as it is.  An
  error of the substitution of the span is the error of the pass.
\<close>

theorem pass_substitutes_last_span:
  "(\<not> list_ex is_line_terminator s \<longrightarrow> length (filter is_match (segments is_sigil s)) \<le> 1)
   \<and> (is_sigil c \<and> \<not> list_ex is_sigil val \<and> CHR ''}'' \<notin> set val \<and> \<not> list_ex is_sigil post
        \<and> \<not> list_ex is_line_terminator (pre @ val @ post)
      \<longrightarrow> replace_with st (pre @ c # CHR ''{'' # val @ CHR ''}'' # post)
            (segments is_sigil (pre @ c # CHR ''{'' # val @ CHR ''}'' # post))
            (defaultValue, substitutedValue, isFinal) =
          (case callback st c val defaultValue of
             Inl e \<Rightarrow> Inl e
           | Inr (v, defaultValue') \<Rightarrow>
               (case to_text (host st) v of
                  Inl e \<Rightarrow> Inl e
                | Inr t \<Rightarrow> Inr (pre @ t @ post, defaultValue', v, pre = [] \<and> post = []))))"
proof (intro conjI impI)
  assume "\<not> list_ex is_line_terminator s"
  then show "length (filter is_match (segments is_sigil s)) \<le> 1"
    by (rule segments_single_line)
next
  assume h: "is_sigil c \<and> \<not> list_ex is_sigil val \<and> CHR ''}'' \<notin> set val \<and> \<not> list_ex is_sigil post
        \<and> \<not> list_ex is_line_terminator (pre @ val @ post)"
  have c: "\<not> is_line_terminator c" using h by (auto simp: is_sigil_def is_line_terminator_def)
  have seg: "segments is_sigil (pre @ c # CHR ''{'' # val @ CHR ''}'' # post)
               = map Lit pre @ Match c val # map Lit post"
    using h c by (intro segments_last_span) (auto simp: is_sigil_def)
  have fin: "(pre @ c # CHR ''{'' # val @ CHR ''}'' # post = c # CHR ''{'' # val @ ''}'')
               \<longleftrightarrow> pre = [] \<and> post = []"
  proof
    assume "pre @ c # CHR ''{'' # val @ CHR ''}'' # post = c # CHR ''{'' # val @ ''}''"
    then have "length (pre @ c # CHR ''{'' # val @ CHR ''}'' # post)
                 = length (c # CHR ''{'' # val @ ''}'')" by (rule arg_cong)
    then show "pre = [] \<and> post = []" by simp
  qed simp
  show "replace_with st (pre @ c # CHR ''{'' # val @ CHR ''}'' # post)
            (segments is_sigil (pre @ c # CHR ''{'' # val @ CHR ''}'' # post))
            (defaultValue, substitutedValue, isFinal) =
          (case callback st c val defaultValue of
             Inl e \<Rightarrow> Inl e
           | Inr (v, defaultValue') \<Rightarrow>
               (case to_text (host st) v of
                  Inl e \<Rightarrow> Inl e
                | Inr t \<Rightarrow> Inr (pre @ t @ post, defaultValue', v, pre = [] \<and> post = [])))"
    unfolding seg replace_with_prefix
    by (simp add: replace_with_literals fin split: sum.splits prod.splits)
qed

text \<open>
  The pass over \<open>'${self:a}-${self:b}.'\<close> with \<open>a = 'x'\<close> and \<open>b = 'y'\<close>: the first
  placeholder and the full stop are copied, the second placeholder becomes \<open>y\<close>.
\<close>

theorem pass_substitutes_last_span_witness:
  "\<not> list_ex is_line_terminator ''${self:a}-${self:b}.''
   \<and> length (filter is_match (segments is_sigil ''${self:a}-${self:b}.'')) \<le> 1
   \<and> is_sigil CHR ''$'' \<and> \<not> list_ex is_sigil ''self:b'' \<and> CHR ''}'' \<notin> set ''self:b''
   \<and> \<not> list_ex is_sigil ''.'' \<and> \<not> list_ex is_line_terminator (''${self:a}-'' @ ''self:b'' @ ''.'')
   \<and> replace_with sibling_store ''${self:a}-${self:b}.'' (segments is_sigil ''${self:a}-${self:b}.'')
         (Undefined, Undefined, False)
       = Inr (''${self:a}-y.'', Undefined, Str ''y'', False)"
proof -
  have cb: "callback sibling_store CHR ''$'' ''self:b'' Undefined = Inr (Str ''y'', Undefined)"
    by (simp add: callback_defs store_defs)
  from pass_substitutes_last_span [of "''${self:a}-${self:b}.''" "CHR ''$''" "''self:b''" "''.''"
      "''${self:a}-''" sibling_store Undefined Undefined False]
  show ?thesis
    by (simp add: cb is_sigil_def is_line_terminator_def del: segments.simps)
qed

text \<open>
  C6 as stated fails: one pass over \<open>'${self:a}-${self:b}'\<close> with \<open>a = 'x'\<close> and
  \<open>b = 'y'\<close> gives \<open>'${self:a}-y'\<close>, not \<open>'x-y'\<close>; the first sibling is still there.
\<close>

theorem sibling_pass_counterexample:
  "map_sum id fst (replace_with sibling_store ''${self:a}-${self:b}''
      (segments is_sigil ''${self:a}-${self:b}'') (Undefined, Undefined, False))
     = Inr ''${self:a}-y''
   \<and> map_sum id fst (replace_with sibling_store ''${self:a}-${self:b}''
      (segments is_sigil ''${self:a}-${self:b}'') (Undefined, Undefined, False))
     \<noteq> Inr ''x-y''"
  by (simp add: regex_defs callback_defs store_defs)

text \<open>
  The siblings wait for later passes, which the depth cap can cut short: of eleven
  siblings the leftmost is still there when the richer variant returns.
\<close>

lemma eleven_siblings:
  "substitute sibling_store
     (Str ''${self:a}${self:a}${self:a}${self:a}${self:a}${self:a}${self:a}${self:a}${self:a}${self:a}${self:a}'')
     Undefined 0
   = Inr (Str ''${self:a}xxxxxxxxxx'')"
  by (simp add: substitute.simps regex_defs callback_defs store_defs)




text \<open>In a longer leaf the inherited \<open>hasOwnProperty\<close> answers \<open>false\<close>.\<close>

lemma inherited_method_in_text:
  "leaf_result app_store (Str (''p-'' @ CHR ''@'' # ''{hasOwnProperty:a}'')) = Inr (Str ''p-false'')"
  by (simp add: leaf_result_def coerce_def strip_quotes_def is_quote_def substitute.simps
      regex_defs callback_defs store_defs)

text \<open>
  C8, as the code has it: a string leaf in which the regex finds no match is stored as it
  is, in both variants, and no error is raised.  (A \<open>${...}\<close> span without a colon does
  match the regex.)
\<close>

theorem unmatched_leaf_unchanged:
  "(\<not> has_match is_sigil s \<longrightarrow>
      resolve_entry (key, Str s) st = Inr (st\<lparr>data := lodash_set (host st) (data st) key (Str s)\<rparr>))
   \<and> (\<not> has_match is_dollar s \<longrightarrow>
      resolve_entry_v1 (key, Str s) st = Inr (st\<lparr>data := lodash_set (host st) (data st) key (Str s)\<rparr>))"
  by (simp add: resolve_entry_def resolve_entry_v1_def leaf_result_def leaf_result_v1_def
      substitute_no_match substitute_v1_no_match coerce_def)

text \<open>The unclosed span \<open>'${foo'\<close> is stored as it is.\<close>

theorem unmatched_leaf_unchanged_witness:
  "\<not> has_match is_sigil ''${foo'' \<and> \<not> has_match is_dollar ''${foo''
   \<and> resolve_entry (''x'', Str ''${foo'') nocolon_store
       = Inr (nocolon_store\<lparr>data := Obj [(''x'', Str ''${foo'')]\<rparr>)
   \<and> resolve_entry_v1 (''x'', Str ''${foo'') nocolon_store
       = Inr (nocolon_store\<lparr>data := Obj [(''x'', Str ''${foo'')]\<rparr>)"
  using unmatched_leaf_unchanged [of "''${foo''" "''x''" nocolon_store]
  by (simp add: regex_defs store_defs lodash_set_def to_path_def)

text \<open>
  C8 as stated fails: the leaf \<open>'${foo}'\<close>, a span without a colon, is not kept as
  literal text; both variants resolve it to \<open>undefined\<close>.
\<close>

theorem nocolon_counterexample:
  "data (snd (resolve nocolon_store Undefined)) = Obj [(''x'', Undefined)]
   \<and> data (snd (resolve_v1 nocolon_store Undefined)) = Obj [(''x'', Undefined)]"
  by (simp add: resolve_defs substitute.simps substitute_v1.simps regex_defs callback_defs
      store_defs)

text \<open>
  C9 at the failing input: after \<open>config.set('app.object', obj)\<close> the definition tree
  holds the caller's object itself (address 3), the resolved tree a copy (address 6).
  After \<open>obj.b = 'b'\<close> the object that \<open>get('app.object')\<close> returns is still
  \<open>{ a: 'a' }\<close>; after the next \<open>resolve()\<close> it is \<open>{ a: 'a', b: 'b' }\<close>.
\<close>

theorem set_keeps_reference:
  "map_option (\<lambda>st. lodash_get_h (heap st) (Ref (config_h st)) ''app.object'' HUndefined) after_set
     = Some (Ref 3)
   \<and> map_option (\<lambda>st. get_h st ''app.object'' HUndefined) after_set = Some (Ref 6)
   \<and> map_option (\<lambda>st. deref st (get_h st ''app.object'' HUndefined)) after_mutation
     = Some (Some (HObj [(''a'', HStr ''a'')]))
   \<and> map_option (\<lambda>st. deref st (get_h st ''app.object'' HUndefined)) after_resolve
     = Some (Some (HObj [(''a'', HStr ''a''), (''b'', HStr ''b'')]))"
  by (simp add: after_mutation_def after_set_heap after_resolve_heap heap_defs)

text \<open>
  The other half of the asymmetry holds: the object that \<open>get\<close> returns is the one in the
  resolved tree, and an assignment through it shows on the next \<open>get\<close> of the same path.
\<close>

lemma get_live_reference:
  "map_option (\<lambda>st. deref (mutate st (get_h st ''app.object'' HUndefined) ''c'' (HStr ''c''))
       (get_h (mutate st (get_h st ''app.object'' HUndefined) ''c'' (HStr ''c''))
          ''app.object'' HUndefined)) after_set
     = Some (Some (HObj [(''a'', HStr ''a''), (''c'', HStr ''c'')]))"
  by (simp add: after_set_heap heap_defs)

text \<open>
  C10: \<open>get\<close> with the empty string as key behaves as \<open>get\<close> with no key: it returns
  the whole resolved tree and ignores the default value.
\<close>

theorem get_empty_key:
  "store_get st (Str []) defaultValue = Inr (data st)
   \<and> store_get st (Str []) defaultValue = store_get st Undefined Undefined"
  by (simp add: store_get_def)

end
